theory Spec2Isabelle
  imports Main "HOL-Library.Word" "HOL-Library.Sublist"
begin

section \<open>JavaScript strings\<close>

text \<open>
  A JavaScript string is a sequence of 16-bit code units. ASCII literals of the program are
  written with \<open>str\<close>.
\<close>

type_synonym code_unit = "16 word"
type_synonym jsstring = "code_unit list"

definition str :: "string \<Rightarrow> jsstring" where
  "str s = map of_char s"

definition LF :: code_unit where
  "LF = 0x0A"

text \<open>
  \<open>String.prototype.trim\<close> removes leading and trailing WhiteSpace and LineTerminator
  code points (ECMA-262): TAB, LF, VT, FF, CR, SP, NBSP, the Unicode space separators,
  LS, PS and ZWNBSP.
\<close>

definition isWhiteSpace :: "code_unit \<Rightarrow> bool" where
  "isWhiteSpace c \<longleftrightarrow>
     (0x09 \<le> c \<and> c \<le> 0x0D) \<or> c = 0x20 \<or> c = 0xA0 \<or> c = 0x1680 \<or>
     (0x2000 \<le> c \<and> c \<le> 0x200A) \<or> c = 0x2028 \<or> c = 0x2029 \<or> c = 0x202F \<or>
     c = 0x205F \<or> c = 0x3000 \<or> c = 0xFEFF"

definition trim :: "jsstring \<Rightarrow> jsstring" where
  "trim s = rev (dropWhile isWhiteSpace (rev (dropWhile isWhiteSpace s)))"

text \<open>\<open>s.startsWith(p)\<close>: the first \<open>length p\<close> code units of \<open>s\<close> are \<open>p\<close>.\<close>

definition startsWith :: "jsstring \<Rightarrow> jsstring \<Rightarrow> bool" where
  "startsWith s p \<longleftrightarrow> take (length p) s = p"

text \<open>\<open>s.endsWith(p)\<close>: false when \<open>p\<close> is longer than \<open>s\<close>.\<close>

definition endsWith :: "jsstring \<Rightarrow> jsstring \<Rightarrow> bool" where
  "endsWith s p \<longleftrightarrow> length p \<le> length s \<and> drop (length s - length p) s = p"

text \<open>\<open>s.split(sep)\<close> for a separator of one code unit; the result is never empty.\<close>

fun js_split :: "code_unit \<Rightarrow> jsstring \<Rightarrow> jsstring list" where
  "js_split sep [] = [[]]"
| "js_split sep (c # cs) =
     (if c = sep then [] # js_split sep cs
      else (case js_split sep cs of
              [] \<Rightarrow> [[c]]
            | l # ls \<Rightarrow> (c # l) # ls))"

text \<open>\<open>xs.join(sep)\<close> for a separator of one code unit.\<close>

fun js_join :: "code_unit \<Rightarrow> jsstring list \<Rightarrow> jsstring" where
  "js_join sep [] = []"
| "js_join sep [x] = x"
| "js_join sep (x # y # zs) = x @ sep # js_join sep (y # zs)"

section \<open>Token validation\<close>

text \<open>
  \<open>isPat\<close> tests the input against the regular expression \<^verbatim>\<open>/^[a-z\d]{52,}$/i\<close>.

  With the flag \<open>i\<close> (and without \<open>u\<close>) a code unit matches a class when its canonical form
  (ECMA-262, Canonicalize: the upper case of the code unit) is the canonical form of a member
  of the class. The rule never maps a code unit from 128 on to one below 128, and the members
  of this class are ASCII, so the canonical form of a code unit from 128 on is taken to be
  the code unit itself.
\<close>

definition canonicalize :: "code_unit \<Rightarrow> code_unit" where
  "canonicalize ch = (if 0x61 \<le> ch \<and> ch \<le> 0x7A then ch - 0x20 else ch)"

text \<open>The members of the class \<^verbatim>\<open>[a-z\d]\<close>: \<open>a\<close> to \<open>z\<close> and \<open>0\<close> to \<open>9\<close>.\<close>

definition patClass :: "code_unit list" where
  "patClass = map of_nat ([97..<123] @ [48..<58])"

definition classMatch :: "code_unit \<Rightarrow> bool" where
  "classMatch ch \<longleftrightarrow> canonicalize ch \<in> set (map canonicalize patClass)"

text \<open>
  The quantifier \<^verbatim>\<open>{n,}\<close> over the class: the remainders of the input at which the
  repetition may stop, the longest repetition first (the quantifier is greedy).
\<close>

fun repeatAtLeast :: "nat \<Rightarrow> jsstring \<Rightarrow> jsstring list" where
  "repeatAtLeast n [] = (if n = 0 then [[]] else [])"
| "repeatAtLeast n (c # cs) =
     (if classMatch c then repeatAtLeast (n - 1) cs else []) @ (if n = 0 then [c # cs] else [])"

text \<open>
  \<^verbatim>\<open>^\<close> anchors the match at the start of the input and \<^verbatim>\<open>$\<close> (no flag \<open>m\<close>) accepts
  only the end of the input.
\<close>

definition isPat :: "jsstring \<Rightarrow> bool" where
  "isPat input \<longleftrightarrow> [] \<in> set (repeatAtLeast 52 input)"

definition isAsciiAlnum :: "code_unit \<Rightarrow> bool" where
  "isAsciiAlnum c \<longleftrightarrow>
     (0x30 \<le> c \<and> c \<le> 0x39) \<or> (0x41 \<le> c \<and> c \<le> 0x5A) \<or> (0x61 \<le> c \<and> c \<le> 0x7A)"

section \<open>Errors and \<open>btoa\<close>\<close>

datatype js_error = TypeError | InvalidCharacterError | SystemError

definition b64alphabet :: jsstring where
  "b64alphabet = str ''ABCDEFGHIJKLMNOPQRSTUVWXYZabcdefghijklmnopqrstuvwxyz0123456789+/''"

definition b64digit :: "nat \<Rightarrow> code_unit" where
  "b64digit n = b64alphabet ! (n mod 64)"

fun b64encode :: "nat list \<Rightarrow> jsstring" where
  "b64encode [] = []"
| "b64encode [a] = [b64digit (a div 4), b64digit ((a mod 4) * 16), 0x3D, 0x3D]"
| "b64encode [a, b] =
     [b64digit (a div 4), b64digit ((a mod 4) * 16 + b div 16), b64digit ((b mod 16) * 4), 0x3D]"
| "b64encode (a # b # c # rest) =
     [b64digit (a div 4), b64digit ((a mod 4) * 16 + b div 16),
      b64digit ((b mod 16) * 4 + c div 64), b64digit (c mod 64)] @ b64encode rest"

text \<open>
  \<open>btoa\<close> throws InvalidCharacterError when a code unit of the input is above 255, and
  otherwise encodes the code units as bytes.
\<close>

definition btoa :: "jsstring \<Rightarrow> js_error + jsstring" where
  "btoa s = (if \<forall>c\<in>set s. c \<le> 0xFF then Inr (b64encode (map unat s))
             else Inl InvalidCharacterError)"

section \<open>Feed URLs\<close>

text \<open>
  The components of a parsed URL that the program and its two patterns read. The parser
  itself (\<open>new URL(s)\<close>, the WHATWG URL Standard) is not part of the program: the functions
  below take it as the parameter \<open>newURL\<close>, which yields \<open>None\<close> where the constructor
  throws a TypeError. As in JavaScript \<open>protocol\<close> ends with the colon, and \<open>port\<close> is empty
  for the default port of the scheme.
\<close>

record URL =
  protocol :: jsstring
  hostname :: jsstring
  port :: jsstring
  pathname :: jsstring

text \<open>
  A pattern built from a constructor string that ends in the pathname fixes the protocol,
  the hostname, the port (empty) and the pathname, and leaves the components it does not
  mention unconstrained. In the pathname a named group \<^verbatim>\<open>:name\<close> stands for one non-empty
  segment without a slash; the pathname is compared segment by segment.
\<close>

datatype segment = Literal jsstring | Named string

record URLPattern =
  pattern_protocol :: jsstring
  pattern_hostname :: jsstring
  pattern_port :: jsstring
  pattern_pathname :: "segment list"

definition slash :: code_unit where
  "slash = 0x2F"

fun matchSegments :: "segment list \<Rightarrow> jsstring list \<Rightarrow> (string \<times> jsstring) list option" where
  "matchSegments [] [] = Some []"
| "matchSegments (Literal l # ps) (x # xs) = (if x = l then matchSegments ps xs else None)"
| "matchSegments (Named n # ps) (x # xs) =
     (if x \<noteq> [] then map_option (\<lambda>groups. (n, x) # groups) (matchSegments ps xs) else None)"
| "matchSegments _ _ = None"

text \<open>\<open>pattern.exec(input)\<close>, reduced to the groups of the pathname.\<close>

definition URLPattern_exec ::
  "(jsstring \<Rightarrow> URL option) \<Rightarrow> URLPattern \<Rightarrow> jsstring \<Rightarrow> (string \<times> jsstring) list option" where
  "URLPattern_exec newURL pattern input =
     (case newURL input of
        None \<Rightarrow> None
      | Some u \<Rightarrow>
          if protocol u = pattern_protocol pattern @ str '':'' \<and>
             hostname u = pattern_hostname pattern \<and>
             port u = pattern_port pattern
          then matchSegments (pattern_pathname pattern) (js_split slash (pathname u))
          else None)"

definition URLPattern_test :: "(jsstring \<Rightarrow> URL option) \<Rightarrow> URLPattern \<Rightarrow> jsstring \<Rightarrow> bool" where
  "URLPattern_test newURL pattern input \<longleftrightarrow> URLPattern_exec newURL pattern input \<noteq> None"

text \<open>
  \<^verbatim>\<open>https://pkgs.dev.azure.com/:organization/_packaging/:feed/npm/registry/\<close> and
  \<^verbatim>\<open>https://pkgs.dev.azure.com/:organization/:project/_packaging/:feed/npm/registry/\<close>.
  The pathname starts and ends with a slash, so its first and last segments are empty.
\<close>

definition azureDevOpsOrganizationFeedPattern :: URLPattern where
  "azureDevOpsOrganizationFeedPattern =
     \<lparr>pattern_protocol = str ''https'', pattern_hostname = str ''pkgs.dev.azure.com'',
      pattern_port = [],
      pattern_pathname =
        [Literal [], Named ''organization'', Literal (str ''_packaging''), Named ''feed'',
         Literal (str ''npm''), Literal (str ''registry''), Literal []]\<rparr>"

definition azureDevOpsProjectFeedPattern :: URLPattern where
  "azureDevOpsProjectFeedPattern =
     \<lparr>pattern_protocol = str ''https'', pattern_hostname = str ''pkgs.dev.azure.com'',
      pattern_port = [],
      pattern_pathname =
        [Literal [], Named ''organization'', Named ''project'', Literal (str ''_packaging''),
         Named ''feed'', Literal (str ''npm''), Literal (str ''registry''), Literal []]\<rparr>"

text \<open>The test of lines 42 and 66: the value matches one of the two patterns.\<close>

definition isFeedUrl :: "(jsstring \<Rightarrow> URL option) \<Rightarrow> jsstring \<Rightarrow> bool" where
  "isFeedUrl newURL value \<longleftrightarrow>
     URLPattern_test newURL azureDevOpsOrganizationFeedPattern value \<or>
     URLPattern_test newURL azureDevOpsProjectFeedPattern value"

text \<open>
  Lines 86 and 87: the groups of the first pattern that matches, the organization-scoped one
  first.
\<close>

definition execFeedUrl ::
  "(jsstring \<Rightarrow> URL option) \<Rightarrow> jsstring \<Rightarrow> (string \<times> jsstring) list option" where
  "execFeedUrl newURL firstUrl =
     (case URLPattern_exec newURL azureDevOpsOrganizationFeedPattern firstUrl of
        Some r \<Rightarrow> Some r
      | None \<Rightarrow> URLPattern_exec newURL azureDevOpsProjectFeedPattern firstUrl)"

text \<open>Line 94: the group \<open>organization\<close> of the result.\<close>

definition organizationOf :: "(string \<times> jsstring) list \<Rightarrow> jsstring" where
  "organizationOf groups =
     (case map_of groups ''organization'' of Some v \<Rightarrow> v | None \<Rightarrow> str ''undefined'')"

text \<open>
  The reading of the specification for comparison: a string conforms to a template when it
  is the template itself with a non-empty, slash-free string in the place of each wildcard.
\<close>

definition conformsToTemplate :: "jsstring \<Rightarrow> bool" where
  "conformsToTemplate s \<longleftrightarrow>
     startsWith s (str ''https://pkgs.dev.azure.com/'') \<and>
     (matchSegments (pattern_pathname azureDevOpsOrganizationFeedPattern)
        (js_split slash (drop 26 s)) \<noteq> None \<or>
      matchSegments (pattern_pathname azureDevOpsProjectFeedPattern)
        (js_split slash (drop 26 s)) \<noteq> None)"

text \<open>
  The URLs of the examples, and what the URL constructor yields for them: the
  organization-scoped and the project-scoped URL of the specification, the first one
  written with the default port of https and with the host in upper case, and a URL of
  another host; every other string stands for one that is not a URL. The constructor omits
  the default port of the scheme from \<open>port\<close> and puts the host in lower case.
\<close>

definition orgFeedUrl :: jsstring where
  "orgFeedUrl = str ''https://pkgs.dev.azure.com/myorg/_packaging/myfeed/npm/registry/''"

definition projectFeedUrl :: jsstring where
  "projectFeedUrl = str ''https://pkgs.dev.azure.com/myorg/myproj/_packaging/myfeed/npm/registry/''"

definition orgFeedUrlWithPort :: jsstring where
  "orgFeedUrlWithPort =
     str ''https://pkgs.dev.azure.com:443/myorg/_packaging/myfeed/npm/registry/''"

definition orgFeedUrlUpperCase :: jsstring where
  "orgFeedUrlUpperCase =
     str ''https://PKGS.DEV.AZURE.COM/myorg/_packaging/myfeed/npm/registry/''"

definition npmjsUrl :: jsstring where
  "npmjsUrl = str ''https://registry.npmjs.org/''"

definition exampleURL :: "jsstring \<Rightarrow> URL option" where
  "exampleURL s =
     (if s = orgFeedUrl \<or> s = orgFeedUrlWithPort \<or> s = orgFeedUrlUpperCase then
        Some \<lparr>protocol = str ''https:'', hostname = str ''pkgs.dev.azure.com'', port = [],
              pathname = str ''/myorg/_packaging/myfeed/npm/registry/''\<rparr>
      else if s = projectFeedUrl then
        Some \<lparr>protocol = str ''https:'', hostname = str ''pkgs.dev.azure.com'', port = [],
              pathname = str ''/myorg/myproj/_packaging/myfeed/npm/registry/''\<rparr>
      else if s = npmjsUrl then
        Some \<lparr>protocol = str ''https:'', hostname = str ''registry.npmjs.org'', port = [],
              pathname = str ''/''\<rparr>
      else None)"

section \<open>The rewrite of the target file for one feed\<close>

text \<open>
  The body of the loop over the feeds (\<open>index.ts\<close>, lines 139 to 181). The array \<open>lines\<close> and
  the three flags are the state of the inner loop, which visits the indices of the array in
  order and overwrites the element at the index.
\<close>

record rewrite_state =
  lines :: "jsstring list"
  replacedUsername :: bool
  replacedPassword :: bool
  replacedEmail :: bool

definition usernamePrefix :: "jsstring \<Rightarrow> jsstring" where
  "usernamePrefix globalNpmrcKeyPrefix = globalNpmrcKeyPrefix @ str '':username''"

definition passwordPrefix :: "jsstring \<Rightarrow> jsstring" where
  "passwordPrefix globalNpmrcKeyPrefix = globalNpmrcKeyPrefix @ str '':_password''"

definition emailPrefix :: "jsstring \<Rightarrow> jsstring" where
  "emailPrefix globalNpmrcKeyPrefix = globalNpmrcKeyPrefix @ str '':email''"

definition usernameEntry :: "jsstring \<Rightarrow> jsstring" where
  "usernameEntry p = usernamePrefix p @ str ''=VssSessionToken''"

definition passwordEntry :: "jsstring \<Rightarrow> jsstring \<Rightarrow> jsstring" where
  "passwordEntry p password = passwordPrefix p @ str ''='' @ password"

definition emailEntry :: "jsstring \<Rightarrow> jsstring" where
  "emailEntry p = emailPrefix p @ str ''=not-used@example.com''"

definition lineStep :: "jsstring \<Rightarrow> jsstring \<Rightarrow> rewrite_state \<Rightarrow> nat \<Rightarrow> rewrite_state" where
  "lineStep p password st index =
     (let line = trim (lines st ! index) in
      if startsWith line (usernamePrefix p) then
        st\<lparr>lines := (lines st)[index := usernameEntry p], replacedUsername := True\<rparr>
      else if startsWith line (passwordPrefix p) then
        st\<lparr>lines := (lines st)[index := passwordEntry p password], replacedPassword := True\<rparr>
      else if startsWith line (emailPrefix p) then
        st\<lparr>lines := (lines st)[index := emailEntry p], replacedEmail := True\<rparr>
      else st)"

definition lineLoop :: "jsstring \<Rightarrow> jsstring \<Rightarrow> jsstring list \<Rightarrow> rewrite_state" where
  "lineLoop p password lines0 =
     foldl (lineStep p password)
       \<lparr>lines = lines0, replacedUsername = False, replacedPassword = False,
        replacedEmail = False\<rparr>
       [0..<length lines0]"

definition rewriteFeed :: "jsstring \<Rightarrow> jsstring \<Rightarrow> jsstring list \<Rightarrow> jsstring list" where
  "rewriteFeed p password lines0 =
     (let st = lineLoop p password lines0;
          l1 = (if \<not> replacedUsername st then lines st @ [usernameEntry p] else lines st);
          l2 = (if \<not> replacedPassword st then l1 @ [passwordEntry p password] else l1);
          l3 = (if \<not> replacedEmail st then l2 @ [emailEntry p] else l2)
      in l3)"

text \<open>What the inner loop does to one line, and which lines it touches.\<close>

definition newLine :: "jsstring \<Rightarrow> jsstring \<Rightarrow> jsstring \<Rightarrow> jsstring" where
  "newLine p password l =
     (if startsWith (trim l) (usernamePrefix p) then usernameEntry p
      else if startsWith (trim l) (passwordPrefix p) then passwordEntry p password
      else if startsWith (trim l) (emailPrefix p) then emailEntry p
      else l)"

definition matchesUsername :: "jsstring \<Rightarrow> jsstring \<Rightarrow> bool" where
  "matchesUsername p l \<longleftrightarrow> startsWith (trim l) (usernamePrefix p)"

definition matchesPassword :: "jsstring \<Rightarrow> jsstring \<Rightarrow> bool" where
  "matchesPassword p l \<longleftrightarrow> startsWith (trim l) (passwordPrefix p)"

definition matchesEmail :: "jsstring \<Rightarrow> jsstring \<Rightarrow> bool" where
  "matchesEmail p l \<longleftrightarrow> startsWith (trim l) (emailPrefix p)"

section \<open>The Config Rewriter\<close>

text \<open>
  The loop over the feeds (lines 135 to 182): each feed URL is parsed again, its key prefix
  is \<open>//hostname pathname\<close>, and the feeds are processed in order on the same array.
\<close>

definition globalNpmrcKeyPrefix :: "URL \<Rightarrow> jsstring" where
  "globalNpmrcKeyPrefix feedUrl = str ''//'' @ hostname feedUrl @ pathname feedUrl"

fun feedLoop ::
  "(jsstring \<Rightarrow> URL option) \<Rightarrow> jsstring \<Rightarrow> jsstring list \<Rightarrow> jsstring list \<Rightarrow>
   js_error + jsstring list" where
  "feedLoop newURL password [] lines0 = Inr lines0"
| "feedLoop newURL password (feedUrlAsString # rest) lines0 =
     (case newURL feedUrlAsString of
        None \<Rightarrow> Inl TypeError
      | Some feedUrl \<Rightarrow>
          feedLoop newURL password rest
            (rewriteFeed (globalNpmrcKeyPrefix feedUrl) password lines0))"

text \<open>
  From the text of the target file, the feed URLs and the token to the text that is written
  back (lines 119 and 133 to 184).
\<close>

definition configRewriter ::
  "(jsstring \<Rightarrow> URL option) \<Rightarrow> jsstring \<Rightarrow> jsstring list \<Rightarrow> jsstring \<Rightarrow> js_error + jsstring" where
  "configRewriter newURL targetText feeds token =
     (case btoa token of
        Inl e \<Rightarrow> Inl e
      | Inr password \<Rightarrow>
          (case feedLoop newURL password feeds (js_split LF targetText) of
             Inl e \<Rightarrow> Inl e
           | Inr lines1 \<Rightarrow> Inr (js_join LF lines1)))"

section \<open>The program\<close>

text \<open>
  What the program does to its environment, in order: what it prints on the standard output
  (\<open>console.log\<close>) and on the error stream (\<open>console.error\<close>), and its calls of \<open>node:fs\<close>.
\<close>

datatype event =
    ConsoleLog jsstring
  | ConsoleError jsstring
  | ExistsSync jsstring
  | ReadFileSync jsstring
  | MkdirSync jsstring
  | WriteFileSync jsstring jsstring

text \<open>
  How a run ends: \<open>process.exit(n)\<close>, the normal end of \<open>main\<close> (exit code 0), an uncaught
  exception, or a prompt that never receives a valid answer.
\<close>

datatype outcome = Exit nat | Done | Threw js_error | Pending

text \<open>
  A value of the parsed project file is a string or some other JavaScript value (a section,
  an array, the boolean of a key without a value); \<open>'v\<close> is the type of those other values.
  The elements of the array \<open>url\<close> are such values too: the ones of the flag are strings,
  the ones pushed at line 72 are whatever the project file holds.
\<close>

datatype 'v js_value = JString jsstring | JOther 'v

text \<open>
  The libraries and the file system are parameters of the model: the URL parser, the INI
  parser (as the entries of the parsed object, in order), what the pattern library does with
  a value that is not a string (\<open>test\<close> and \<open>exec\<close> of a pattern on it), the conversion of such
  a value to a string (\<open>None\<close> where the conversion throws a TypeError), \<open>untildify\<close>,
  \<open>dirname\<close>, the colours of \<open>picocolors\<close>, and the four operations of \<open>node:fs\<close> on a state
  of the file system. An operation of the file system that throws yields \<open>Inl\<close>.
\<close>

record ('fs, 'v) platform =
  URL_new :: "jsstring \<Rightarrow> URL option"
  INI_parse :: "jsstring \<Rightarrow> (jsstring \<times> 'v js_value) list"
  URLPattern_test_value :: "URLPattern \<Rightarrow> 'v \<Rightarrow> bool"
  URLPattern_exec_value :: "URLPattern \<Rightarrow> 'v \<Rightarrow> (string \<times> jsstring) list option"
  String_value :: "'v \<Rightarrow> jsstring option"
  untildify :: "jsstring \<Rightarrow> jsstring"
  dirname :: "jsstring \<Rightarrow> jsstring"
  pc_red :: "jsstring \<Rightarrow> jsstring"
  pc_cyan :: "jsstring \<Rightarrow> jsstring"
  pc_green :: "jsstring \<Rightarrow> jsstring"
  pc_bold :: "jsstring \<Rightarrow> jsstring"
  existsSync :: "'fs \<Rightarrow> jsstring \<Rightarrow> bool"
  readFileSync :: "'fs \<Rightarrow> jsstring \<Rightarrow> js_error + jsstring"
  writeFileSync :: "'fs \<Rightarrow> jsstring \<Rightarrow> jsstring \<Rightarrow> js_error + 'fs"
  mkdirSync :: "'fs \<Rightarrow> jsstring \<Rightarrow> js_error + 'fs"

text \<open>The options as \<open>commander\<close> returns them; \<open>url\<close> is empty when the flag is absent.\<close>

record options =
  pat :: "jsstring option"
  url :: "jsstring list"
  npmrc :: jsstring
  target :: jsstring

text \<open>The state of a run: the file system and the events so far.\<close>

record 'fs world =
  fs :: 'fs
  trace :: "event list"

definition emit :: "event \<Rightarrow> 'fs world \<Rightarrow> 'fs world" where
  "emit e w = w\<lparr>trace := trace w @ [e]\<rparr>"

definition invalidPatMessage :: jsstring where
  "invalidPatMessage = str ''The input does not look like a PAT. Make sure you pasted it correctly.''"

definition invalidUrlMessage :: "jsstring \<Rightarrow> jsstring" where
  \<open>invalidUrlMessage value =
     str ''"'' @ value @
     str ''" is not a valid Azure DevOps NPM feed URL. Expected "https://pkgs.dev.azure.com/:organization(/:project)/_packaging/:feed/npm/registry/"''\<close>

definition missingNpmrcMessage :: "jsstring \<Rightarrow> jsstring" where
  \<open>missingNpmrcMessage file =
     str ''Failed to find NPM configuration file. "'' @ file @ str ''" does not exist.''\<close>

definition noFeedMessage :: "jsstring \<Rightarrow> jsstring" where
  \<open>noFeedMessage file =
     str ''Could not find any Azure DevOps feeds in "'' @ file @
     str ''". Please add the feed to the file or specify the feed URL with the "--url" option.''\<close>

definition parseFailedMessage :: "jsstring \<Rightarrow> jsstring" where
  \<open>parseFailedMessage firstUrl =
     str ''Failed to parse Azure DevOps feed URL: "'' @ firstUrl @ str ''"''\<close>

text \<open>Lines 41 to 47: the first value that matches neither pattern ends the run.\<close>

fun validateUrls ::
  "('fs, 'v) platform \<Rightarrow> jsstring list \<Rightarrow> 'fs world \<Rightarrow> 'fs world \<times> outcome option" where
  "validateUrls P [] w = (w, None)"
| "validateUrls P (value # rest) w =
     (if \<not> isFeedUrl (URL_new P) value
      then (emit (ConsoleLog (pc_red P (invalidUrlMessage value))) w, Some (Exit 1))
      else validateUrls P rest w)"

text \<open>Lines 59 to 73: the registry entries of the project file that are feed URLs.\<close>

definition isRegistryEntry :: "jsstring \<Rightarrow> bool" where
  "isRegistryEntry key \<longleftrightarrow>
     key = str ''registry'' \<or> (startsWith key (str ''@'') \<and> endsWith key (str '':registry''))"

text \<open>The test of line 66 on a value of the project file, and the conversion to a string.\<close>

definition isFeedValue :: "('fs, 'v) platform \<Rightarrow> 'v js_value \<Rightarrow> bool" where
  "isFeedValue P value =
     (case value of
        JString v \<Rightarrow> isFeedUrl (URL_new P) v
      | JOther v \<Rightarrow>
          URLPattern_test_value P azureDevOpsOrganizationFeedPattern v \<or>
          URLPattern_test_value P azureDevOpsProjectFeedPattern v)"

definition valueString :: "('fs, 'v) platform \<Rightarrow> 'v js_value \<Rightarrow> jsstring option" where
  "valueString P value = (case value of JString v \<Rightarrow> Some v | JOther v \<Rightarrow> String_value P v)"

fun registryUrls ::
  "('fs, 'v) platform \<Rightarrow> (jsstring \<times> 'v js_value) list \<Rightarrow> 'v js_value list" where
  "registryUrls P [] = []"
| "registryUrls P ((key, value) # rest) =
     (if \<not> isRegistryEntry key then registryUrls P rest
      else if \<not> isFeedValue P value then registryUrls P rest
      else value # registryUrls P rest)"

text \<open>Lines 50 to 74: without a URL from the flag, the URLs come from the project file.\<close>

definition discoverUrls ::
  "('fs, 'v) platform \<Rightarrow> jsstring \<Rightarrow> jsstring list \<Rightarrow> 'fs world \<Rightarrow>
   'fs world \<times> (outcome + 'v js_value list)" where
  "discoverUrls P file feeds w =
     (if length feeds = 0 then
        (let w1 = emit (ExistsSync file) w in
         if \<not> existsSync P (fs w1) file
         then (emit (ConsoleError (pc_red P (missingNpmrcMessage file))) w1, Inl (Exit 1))
         else
           (let w2 = emit (ReadFileSync file) w1 in
            case readFileSync P (fs w2) file of
              Inl e \<Rightarrow> (w2, Inl (Threw e))
            | Inr text \<Rightarrow>
                (w2, Inr (map JString feeds @ registryUrls P (INI_parse P text)))))
      else (w, Inr (map JString feeds)))"

text \<open>
  The prompt (lines 100 to 116): \<open>answers\<close> are the inputs the user submits, in order; the
  prompt asks again until one passes \<open>validate\<close>, and the token is that input, trimmed.
\<close>

definition validate :: "jsstring \<Rightarrow> bool" where
  "validate input \<longleftrightarrow> trim input \<noteq> [] \<and> isPat (trim input)"

fun prompt :: "jsstring list \<Rightarrow> jsstring option" where
  "prompt [] = None"
| "prompt (input # later) = (if validate input then Some input else prompt later)"

text \<open>Lines 86 and 87 on an element of \<open>url\<close>.\<close>

definition execFeedValue ::
  "('fs, 'v) platform \<Rightarrow> 'v js_value \<Rightarrow> (string \<times> jsstring) list option" where
  "execFeedValue P firstUrl =
     (case firstUrl of
        JString v \<Rightarrow> execFeedUrl (URL_new P) v
      | JOther v \<Rightarrow>
          (case URLPattern_exec_value P azureDevOpsOrganizationFeedPattern v of
             Some r \<Rightarrow> Some r
           | None \<Rightarrow> URLPattern_exec_value P azureDevOpsProjectFeedPattern v))"

text \<open>
  Lines 83 to 117: the token of the flag, or the one asked from the user. The array \<open>url\<close> is
  not empty here (line 77); the case of the empty array is never reached.
\<close>

definition obtainPat ::
  "('fs, 'v) platform \<Rightarrow> jsstring option \<Rightarrow> 'v js_value list \<Rightarrow> jsstring list \<Rightarrow>
   'fs world \<Rightarrow> 'fs world \<times> (outcome + jsstring)" where
  "obtainPat P flag feeds answers w =
     (case (case flag of None \<Rightarrow> None | Some t \<Rightarrow> if t = [] then None else Some t) of
        Some t \<Rightarrow> (w, Inr t)
      | None \<Rightarrow>
          (case feeds of
             [] \<Rightarrow> (w, Inl (Threw TypeError))
           | firstUrl # _ \<Rightarrow>
               (case execFeedValue P firstUrl of
                  None \<Rightarrow>
                    (case valueString P firstUrl of
                       None \<Rightarrow> (w, Inl (Threw TypeError))
                     | Some shown \<Rightarrow>
                         (emit (ConsoleError (pc_red P (parseFailedMessage shown))) w,
                          Inl (Exit 1)))
                | Some groups \<Rightarrow>
                    (let organization = organizationOf groups;
                         tokensUrl =
                           str ''https://dev.azure.com/'' @ organization @
                           str ''/_usersSettings/tokens'';
                         w1 = emit (ConsoleLog
                                (str ''Please generate a PAT at: '' @ pc_cyan P tokensUrl)) w;
                         w2 = emit (ConsoleLog
                                (str ''Permissions required: '' @
                                 pc_green P (str ''Packaging (Read & Write)''))) w1
                     in case prompt answers of
                          None \<Rightarrow> (w2, Inl Pending)
                        | Some untrimmedPat \<Rightarrow> (w2, Inr (trim untrimmedPat))))))"

text \<open>Lines 122 to 128: a target file that does not exist is created empty.\<close>

definition ensureTarget ::
  "('fs, 'v) platform \<Rightarrow> jsstring \<Rightarrow> 'fs world \<Rightarrow> 'fs world \<times> outcome option" where
  "ensureTarget P file w =
     (let w1 = emit (ExistsSync file) w in
      if \<not> existsSync P (fs w1) file then
        (let targetDir = dirname P file;
             w2 = emit (ExistsSync targetDir) w1;
             made =
               (if \<not> existsSync P (fs w2) targetDir
                then (case mkdirSync P (fs w2) targetDir of
                        Inl e \<Rightarrow> (emit (MkdirSync targetDir) w2, Some (Threw e))
                      | Inr fs1 \<Rightarrow> ((emit (MkdirSync targetDir) w2)\<lparr>fs := fs1\<rparr>, None))
                else (w2, None))
         in case made of
              (w3, Some oc) \<Rightarrow> (w3, Some oc)
            | (w3, None) \<Rightarrow>
                (case writeFileSync P (fs w3) file [] of
                   Inl e \<Rightarrow> (emit (WriteFileSync file []) w3, Some (Threw e))
                 | Inr fs1 \<Rightarrow> ((emit (WriteFileSync file []) w3)\<lparr>fs := fs1\<rparr>, None)))
      else (w1, None))"

text \<open>
  Lines 133 to 187: the target file is read, rewritten and written back. The URL constructor
  converts its argument to a string first; the loop throws a TypeError at the first element
  that has no string or is not a URL, before anything is written, and prints nothing.
\<close>

definition rewriteTarget ::
  "('fs, 'v) platform \<Rightarrow> jsstring \<Rightarrow> 'v js_value list \<Rightarrow> jsstring \<Rightarrow> 'fs world \<Rightarrow>
   'fs world \<times> outcome" where
  "rewriteTarget P file feeds password w =
     (let w1 = emit (ReadFileSync file) w in
      case readFileSync P (fs w1) file of
        Inl e \<Rightarrow> (w1, Threw e)
      | Inr targetText \<Rightarrow>
          (case (case those (map (valueString P) feeds) of
                   None \<Rightarrow> Inl TypeError
                 | Some feedUrls \<Rightarrow>
                     feedLoop (URL_new P) password feedUrls (js_split LF targetText)) of
             Inl e \<Rightarrow> (w1, Threw e)
           | Inr lines1 \<Rightarrow>
               (let text = js_join LF lines1;
                    w2 = emit (WriteFileSync file text) w1
                in case writeFileSync P (fs w2) file text of
                     Inl e \<Rightarrow> (w2, Threw e)
                   | Inr fs1 \<Rightarrow>
                       (emit (ConsoleLog
                          (pc_bold P (pc_green P (str ''Authentication successful.''))))
                          (w2\<lparr>fs := fs1\<rparr>),
                        Done))))"

text \<open>\<open>main\<close>, from the parsed options on.\<close>

definition main ::
  "('fs, 'v) platform \<Rightarrow> options \<Rightarrow> jsstring list \<Rightarrow> 'fs world \<Rightarrow> 'fs world \<times> outcome" where
  "main P opts answers w =
     (let npmrcPath = untildify P (npmrc opts);
          targetPath = untildify P (target opts)
      in
      if (case pat opts of None \<Rightarrow> False | Some t \<Rightarrow> t \<noteq> [] \<and> \<not> isPat t)
      then (emit (ConsoleError (pc_red P invalidPatMessage)) w, Exit 1)
      else
        (case validateUrls P (url opts) w of
           (w1, Some oc) \<Rightarrow> (w1, oc)
         | (w1, None) \<Rightarrow>
             (case discoverUrls P npmrcPath (url opts) w1 of
                (w2, Inl oc) \<Rightarrow> (w2, oc)
              | (w2, Inr feeds) \<Rightarrow>
                  if length feeds = 0
                  then (emit (ConsoleError (pc_red P (noFeedMessage npmrcPath))) w2, Exit 1)
                  else
                    (case obtainPat P (pat opts) feeds answers w2 of
                       (w3, Inl oc) \<Rightarrow> (w3, oc)
                     | (w3, Inr token) \<Rightarrow>
                         (case btoa token of
                            Inl e \<Rightarrow> (w3, Threw e)
                          | Inr password \<Rightarrow>
                              (case ensureTarget P targetPath w3 of
                                 (w4, Some oc) \<Rightarrow> (w4, oc)
                               | (w4, None) \<Rightarrow>
                                   rewriteTarget P targetPath feeds password w4))))))"

text \<open>
  A platform for the examples: the URLs above, a project file without entries, no colours,
  paths taken as they are, a file system that is a list of files with their contents (the
  newest first) in one directory that exists.
\<close>

definition examplePlatform :: "((jsstring \<times> jsstring) list, unit) platform" where
  "examplePlatform =
     \<lparr>URL_new = exampleURL,
      INI_parse = (\<lambda>text. []),
      URLPattern_test_value = (\<lambda>pattern v. False),
      URLPattern_exec_value = (\<lambda>pattern v. None),
      String_value = (\<lambda>v. None),
      untildify = (\<lambda>path. path),
      dirname = (\<lambda>path. str ''.''),
      pc_red = (\<lambda>s. s), pc_cyan = (\<lambda>s. s), pc_green = (\<lambda>s. s), pc_bold = (\<lambda>s. s),
      existsSync = (\<lambda>files path. path = str ''.'' \<or> map_of files path \<noteq> None),
      readFileSync =
        (\<lambda>files path. case map_of files path of None \<Rightarrow> Inl SystemError | Some c \<Rightarrow> Inr c),
      writeFileSync = (\<lambda>files path c. Inr ((path, c) # files)),
      mkdirSync = (\<lambda>files path. Inr files)\<rparr>"

section \<open>Properties of the rewrite for one feed\<close>

lemma startsWith_prefix: "startsWith s p \<longleftrightarrow> prefix p s"
  unfolding startsWith_def prefix_def
  by (metis append_eq_conv_conj append_take_drop_id)

lemma startsWith_append: "startsWith s (a @ b) \<Longrightarrow> startsWith s a"
  by (auto simp: startsWith_prefix prefix_def)

lemma lineStep_eq:
  "lineStep p pw st i =
     \<lparr>lines = (lines st)[i := newLine p pw (lines st ! i)],
      replacedUsername = (replacedUsername st \<or> matchesUsername p (lines st ! i)),
      replacedPassword = (replacedPassword st \<or>
         (\<not> matchesUsername p (lines st ! i) \<and> matchesPassword p (lines st ! i))),
      replacedEmail = (replacedEmail st \<or>
         (\<not> matchesUsername p (lines st ! i) \<and> \<not> matchesPassword p (lines st ! i)
          \<and> matchesEmail p (lines st ! i)))\<rparr>"
  by (cases st)
     (simp add: lineStep_def Let_def newLine_def matchesUsername_def matchesPassword_def
        matchesEmail_def)




lemma lineLoop_aux:
  "n \<le> length ls \<Longrightarrow>
   foldl (lineStep p pw)
     \<lparr>lines = ls, replacedUsername = False, replacedPassword = False, replacedEmail = False\<rparr>
     [0..<n] =
   \<lparr>lines = map (newLine p pw) (take n ls) @ drop n ls,
    replacedUsername = (\<exists>l\<in>set (take n ls). matchesUsername p l),
    replacedPassword = (\<exists>l\<in>set (take n ls). \<not> matchesUsername p l \<and> matchesPassword p l),
    replacedEmail = (\<exists>l\<in>set (take n ls).
       \<not> matchesUsername p l \<and> \<not> matchesPassword p l \<and> matchesEmail p l)\<rparr>"
proof (induction n)
  case 0
  then show ?case by simp
next
  case (Suc n)
  then have n: "n < length ls" by simp
  have nth: "(map (newLine p pw) (take n ls) @ drop n ls) ! n = ls ! n"
    using n by (simp add: nth_append)
  have upd: "(map (newLine p pw) (take n ls) @ drop n ls)[n := v]
      = map (newLine p pw) (take n ls) @ v # drop (Suc n) ls" for v
    using n by (simp add: list_update_append Cons_nth_drop_Suc[symmetric] )
  have tk: "take (Suc n) ls = take n ls @ [ls ! n]"
    using n by (simp add: take_Suc_conv_app_nth)
  have IH: "foldl (lineStep p pw)
     \<lparr>lines = ls, replacedUsername = False, replacedPassword = False, replacedEmail = False\<rparr>
     [0..<n] =
   \<lparr>lines = map (newLine p pw) (take n ls) @ drop n ls,
    replacedUsername = (\<exists>l\<in>set (take n ls). matchesUsername p l),
    replacedPassword = (\<exists>l\<in>set (take n ls). \<not> matchesUsername p l \<and> matchesPassword p l),
    replacedEmail = (\<exists>l\<in>set (take n ls).
       \<not> matchesUsername p l \<and> \<not> matchesPassword p l \<and> matchesEmail p l)\<rparr>"
    using Suc by simp
  have "foldl (lineStep p pw)
     \<lparr>lines = ls, replacedUsername = False, replacedPassword = False, replacedEmail = False\<rparr>
     [0..<Suc n] = lineStep p pw \<lparr>lines = map (newLine p pw) (take n ls) @ drop n ls,
    replacedUsername = (\<exists>l\<in>set (take n ls). matchesUsername p l),
    replacedPassword = (\<exists>l\<in>set (take n ls). \<not> matchesUsername p l \<and> matchesPassword p l),
    replacedEmail = (\<exists>l\<in>set (take n ls).
       \<not> matchesUsername p l \<and> \<not> matchesPassword p l \<and> matchesEmail p l)\<rparr> n"
    by (simp only: upt_Suc_append[OF le0] foldl_append foldl.simps IH)
  also have "\<dots> = \<lparr>lines = map (newLine p pw) (take (Suc n) ls) @ drop (Suc n) ls,
    replacedUsername = (\<exists>l\<in>set (take (Suc n) ls). matchesUsername p l),
    replacedPassword = (\<exists>l\<in>set (take (Suc n) ls). \<not> matchesUsername p l \<and> matchesPassword p l),
    replacedEmail = (\<exists>l\<in>set (take (Suc n) ls).
       \<not> matchesUsername p l \<and> \<not> matchesPassword p l \<and> matchesEmail p l)\<rparr>"
    unfolding lineStep_eq
    by (simp add: nth upd tk del: take_Suc_conv_app_nth) blast
  finally show ?case .
qed

lemma lineLoop_eq:
  "lineLoop p pw ls =
   \<lparr>lines = map (newLine p pw) ls,
    replacedUsername = (\<exists>l\<in>set ls. matchesUsername p l),
    replacedPassword = (\<exists>l\<in>set ls. \<not> matchesUsername p l \<and> matchesPassword p l),
    replacedEmail = (\<exists>l\<in>set ls.
       \<not> matchesUsername p l \<and> \<not> matchesPassword p l \<and> matchesEmail p l)\<rparr>"
  unfolding lineLoop_def using lineLoop_aux[of "length ls" ls p pw] by simp

lemma startsWith_nth:
  "startsWith t (p @ x) \<Longrightarrow> i < length x \<Longrightarrow> t ! (length p + i) = x ! i"
  by (auto simp: startsWith_prefix prefix_def nth_append)

lemma subkeys_differ:
  "startsWith t (p @ x) \<Longrightarrow> startsWith t (p @ y) \<Longrightarrow> 1 < length x \<Longrightarrow> 1 < length y
   \<Longrightarrow> x ! 1 = y ! 1"
  using startsWith_nth[of t p x 1] startsWith_nth[of t p y 1] by simp

lemma username_not_password: "matchesUsername p l \<Longrightarrow> \<not> matchesPassword p l"
  unfolding matchesUsername_def matchesPassword_def usernamePrefix_def passwordPrefix_def
  by (auto dest: subkeys_differ simp: str_def)

lemma username_not_email: "matchesUsername p l \<Longrightarrow> \<not> matchesEmail p l"
  unfolding matchesUsername_def matchesEmail_def usernamePrefix_def emailPrefix_def
  by (auto dest: subkeys_differ simp: str_def)

lemma password_not_email: "matchesPassword p l \<Longrightarrow> \<not> matchesEmail p l"
  unfolding matchesPassword_def matchesEmail_def passwordPrefix_def emailPrefix_def
  by (auto dest: subkeys_differ simp: str_def)

lemma rewriteFeed_eq:
  "rewriteFeed p pw ls =
     map (newLine p pw) ls
     @ (if \<exists>l\<in>set ls. matchesUsername p l then [] else [usernameEntry p])
     @ (if \<exists>l\<in>set ls. matchesPassword p l then [] else [passwordEntry p pw])
     @ (if \<exists>l\<in>set ls. matchesEmail p l then [] else [emailEntry p])"
proof -
  have 1: "(\<exists>l\<in>set ls. \<not> matchesUsername p l \<and> matchesPassword p l)
      = (\<exists>l\<in>set ls. matchesPassword p l)"
    using username_not_password by blast
  have 2: "(\<exists>l\<in>set ls. \<not> matchesUsername p l \<and> \<not> matchesPassword p l \<and> matchesEmail p l)
      = (\<exists>l\<in>set ls. matchesEmail p l)"
    using username_not_email password_not_email by blast
  show ?thesis
    unfolding rewriteFeed_def lineLoop_eq 1 2 by (simp add: Let_def)
qed

lemma newLine_cases:
  "(matchesUsername p l \<longrightarrow> newLine p pw l = usernameEntry p) \<and>
   (matchesPassword p l \<longrightarrow> newLine p pw l = passwordEntry p pw) \<and>
   (matchesEmail p l \<longrightarrow> newLine p pw l = emailEntry p) \<and>
   (\<not> matchesUsername p l \<and> \<not> matchesPassword p l \<and> \<not> matchesEmail p l \<longrightarrow> newLine p pw l = l)"
  using username_not_password[of p l] username_not_email[of p l] password_not_email[of p l]
  by (auto simp: newLine_def matchesUsername_def matchesPassword_def matchesEmail_def)

lemma rewriteFeed_nth:
  "i < length ls \<Longrightarrow> rewriteFeed p pw ls ! i = newLine p pw (ls ! i)"
  by (simp add: rewriteFeed_eq nth_append)

lemma count_newLine:
  "length (filter (matchesUsername p) ls) \<le> count_list (map (newLine p pw) ls) (usernameEntry p) \<and>
   length (filter (matchesPassword p) ls) \<le> count_list (map (newLine p pw) ls) (passwordEntry p pw) \<and>
   length (filter (matchesEmail p) ls) \<le> count_list (map (newLine p pw) ls) (emailEntry p)"
proof (induction ls)
  case Nil
  then show ?case by simp
next
  case (Cons l ls)
  then show ?case using newLine_cases[of p l pw] by auto
qed

lemma count_list_append_le: "count_list xs a \<le> count_list (xs @ ys) a"
  by (induction xs) auto

section \<open>Claims about the rewrite for one feed\<close>

text \<open>
  C3. When the lines hold, for the key prefix of a feed, a line whose trimmed content starts
  with the username sub-key, one for the password sub-key and one for the email sub-key,
  the rewrite for that feed leaves the number of lines unchanged and puts the generated
  entry at the index of every such line (the other lines stay as they are); when no line
  starts with any of the three sub-keys, the result is the old lines followed by exactly the
  three generated entries, in the order username, password, email.
\<close>

theorem rewriteFeed_replace_or_append:
  "((\<exists>l\<in>set ls. matchesUsername p l) \<and> (\<exists>l\<in>set ls. matchesPassword p l) \<and>
    (\<exists>l\<in>set ls. matchesEmail p l) \<longrightarrow>
      length (rewriteFeed p pw ls) = length ls \<and>
      (\<forall>i<length ls.
         (matchesUsername p (ls ! i) \<longrightarrow> rewriteFeed p pw ls ! i = usernameEntry p) \<and>
         (matchesPassword p (ls ! i) \<longrightarrow> rewriteFeed p pw ls ! i = passwordEntry p pw) \<and>
         (matchesEmail p (ls ! i) \<longrightarrow> rewriteFeed p pw ls ! i = emailEntry p) \<and>
         (\<not> matchesUsername p (ls ! i) \<and> \<not> matchesPassword p (ls ! i) \<and>
          \<not> matchesEmail p (ls ! i) \<longrightarrow> rewriteFeed p pw ls ! i = ls ! i)))
   \<and>
   ((\<forall>l\<in>set ls. \<not> matchesUsername p l \<and> \<not> matchesPassword p l \<and> \<not> matchesEmail p l) \<longrightarrow>
      rewriteFeed p pw ls = ls @ [usernameEntry p, passwordEntry p pw, emailEntry p])"
proof (intro conjI impI allI)
  assume "(\<exists>l\<in>set ls. matchesUsername p l) \<and> (\<exists>l\<in>set ls. matchesPassword p l) \<and>
    (\<exists>l\<in>set ls. matchesEmail p l)"
  then show "length (rewriteFeed p pw ls) = length ls"
    by (simp add: rewriteFeed_eq)
next
  fix i assume "i < length ls" "matchesUsername p (ls ! i)"
  then show "rewriteFeed p pw ls ! i = usernameEntry p"
    using newLine_cases[of p "ls ! i" pw] by (simp add: rewriteFeed_nth)
next
  fix i assume "i < length ls" "matchesPassword p (ls ! i)"
  then show "rewriteFeed p pw ls ! i = passwordEntry p pw"
    using newLine_cases[of p "ls ! i" pw] by (simp add: rewriteFeed_nth)
next
  fix i assume "i < length ls" "matchesEmail p (ls ! i)"
  then show "rewriteFeed p pw ls ! i = emailEntry p"
    using newLine_cases[of p "ls ! i" pw] by (simp add: rewriteFeed_nth)
next
  fix i assume "i < length ls" "\<not> matchesUsername p (ls ! i) \<and> \<not> matchesPassword p (ls ! i) \<and>
          \<not> matchesEmail p (ls ! i)"
  then show "rewriteFeed p pw ls ! i = ls ! i"
    using newLine_cases[of p "ls ! i" pw] by (simp add: rewriteFeed_nth)
next
  assume a: "\<forall>l\<in>set ls. \<not> matchesUsername p l \<and> \<not> matchesPassword p l \<and> \<not> matchesEmail p l"
  then have "map (newLine p pw) ls = ls"
    using newLine_cases[of p _ pw] by (simp add: map_idI)
  with a show "rewriteFeed p pw ls = ls @ [usernameEntry p, passwordEntry p pw, emailEntry p]"
    by (simp add: rewriteFeed_eq)
qed

theorem rewriteFeed_replace_or_append_witness:
  "length (rewriteFeed (str ''//h/p/'') (str ''cGFzcw=='')
       [str ''; kept'', str ''  //h/p/:username=old'', str ''//h/p/:_password=old '',
        str ''//h/p/:email=old'']) = 4
   \<and> rewriteFeed (str ''//h/p/'') (str ''cGFzcw=='')
       [str ''; kept'', str ''  //h/p/:username=old'', str ''//h/p/:_password=old '',
        str ''//h/p/:email=old'']
     = [str ''; kept'', str ''//h/p/:username=VssSessionToken'', str ''//h/p/:_password=cGFzcw=='',
        str ''//h/p/:email=not-used@example.com'']
   \<and> rewriteFeed (str ''//h/p/'') (str ''cGFzcw=='') [str ''; kept'', str ''registry=https://r/'']
     = [str ''; kept'', str ''registry=https://r/'', str ''//h/p/:username=VssSessionToken'',
        str ''//h/p/:_password=cGFzcw=='', str ''//h/p/:email=not-used@example.com'']"
proof -
  let ?p = "str ''//h/p/''" and ?pw = "str ''cGFzcw==''"
  let ?a = "[str ''; kept'', str ''  //h/p/:username=old'', str ''//h/p/:_password=old '',
        str ''//h/p/:email=old'']"
  let ?b = "[str ''; kept'', str ''registry=https://r/'']"
  have m: "matchesUsername ?p (?a ! 1)" "matchesPassword ?p (?a ! 2)" "matchesEmail ?p (?a ! 3)"
    "\<not> matchesUsername ?p (?a ! 0)" "\<not> matchesPassword ?p (?a ! 0)" "\<not> matchesEmail ?p (?a ! 0)"
    by code_simp+
  have n: "\<forall>l\<in>set ?b. \<not> matchesUsername ?p l \<and> \<not> matchesPassword ?p l \<and> \<not> matchesEmail ?p l"
    by code_simp
  have ex: "(\<exists>l\<in>set ?a. matchesUsername ?p l) \<and> (\<exists>l\<in>set ?a. matchesPassword ?p l) \<and>
    (\<exists>l\<in>set ?a. matchesEmail ?p l)"
    by code_simp
  have e: "usernameEntry ?p = str ''//h/p/:username=VssSessionToken''"
     "passwordEntry ?p ?pw = str ''//h/p/:_password=cGFzcw==''"
     "emailEntry ?p = str ''//h/p/:email=not-used@example.com''"
    by code_simp+
  from rewriteFeed_replace_or_append[of ?a ?p ?pw] ex
  have len: "length (rewriteFeed ?p ?pw ?a) = 4"
    and nth: "\<forall>i<length ?a.
         (matchesUsername ?p (?a ! i) \<longrightarrow> rewriteFeed ?p ?pw ?a ! i = usernameEntry ?p) \<and>
         (matchesPassword ?p (?a ! i) \<longrightarrow> rewriteFeed ?p ?pw ?a ! i = passwordEntry ?p ?pw) \<and>
         (matchesEmail ?p (?a ! i) \<longrightarrow> rewriteFeed ?p ?pw ?a ! i = emailEntry ?p) \<and>
         (\<not> matchesUsername ?p (?a ! i) \<and> \<not> matchesPassword ?p (?a ! i) \<and>
          \<not> matchesEmail ?p (?a ! i) \<longrightarrow> rewriteFeed ?p ?pw ?a ! i = ?a ! i)"
    by simp_all
  have "rewriteFeed ?p ?pw ?a ! 0 = ?a ! 0" "rewriteFeed ?p ?pw ?a ! 1 = usernameEntry ?p"
    "rewriteFeed ?p ?pw ?a ! 2 = passwordEntry ?p ?pw" "rewriteFeed ?p ?pw ?a ! 3 = emailEntry ?p"
    using nth m by simp_all
  then have a: "rewriteFeed ?p ?pw ?a = [str ''; kept'', usernameEntry ?p, passwordEntry ?p ?pw, emailEntry ?p]"
    using len by (auto simp: list_eq_iff_nth_eq less_Suc_eq numeral_eq_Suc)
  from rewriteFeed_replace_or_append[of ?b ?p ?pw] n
  have b: "rewriteFeed ?p ?pw ?b = ?b @ [usernameEntry ?p, passwordEntry ?p ?pw, emailEntry ?p]"
    by blast
  show ?thesis using len a b unfolding e by simp
qed

text \<open>
  C7. When more than one line starts (trimmed) with the same sub-key prefix, every such line
  is overwritten with the same generated entry and stays where it is: the result holds the
  entry at least as many times as the input had matching lines, so the duplicates remain.
\<close>

theorem rewriteFeed_keeps_duplicates:
  "(1 < length (filter (matchesUsername p) ls) \<longrightarrow>
      (\<forall>i<length ls. matchesUsername p (ls ! i) \<longrightarrow> rewriteFeed p pw ls ! i = usernameEntry p) \<and>
      length (filter (matchesUsername p) ls) \<le> count_list (rewriteFeed p pw ls) (usernameEntry p)) \<and>
   (1 < length (filter (matchesPassword p) ls) \<longrightarrow>
      (\<forall>i<length ls. matchesPassword p (ls ! i) \<longrightarrow> rewriteFeed p pw ls ! i = passwordEntry p pw) \<and>
      length (filter (matchesPassword p) ls) \<le> count_list (rewriteFeed p pw ls) (passwordEntry p pw)) \<and>
   (1 < length (filter (matchesEmail p) ls) \<longrightarrow>
      (\<forall>i<length ls. matchesEmail p (ls ! i) \<longrightarrow> rewriteFeed p pw ls ! i = emailEntry p) \<and>
      length (filter (matchesEmail p) ls) \<le> count_list (rewriteFeed p pw ls) (emailEntry p))"
proof -
  have nth: "i < length ls \<Longrightarrow> rewriteFeed p pw ls ! i = newLine p pw (ls ! i)" for i
    by (rule rewriteFeed_nth)
  have le: "count_list (map (newLine p pw) ls) a \<le> count_list (rewriteFeed p pw ls) a" for a
    unfolding rewriteFeed_eq by (rule count_list_append_le)
  show ?thesis
    using count_newLine[of p ls pw] le newLine_cases[of p _ pw]
    by (auto simp: nth intro: order_trans)
qed

theorem rewriteFeed_keeps_duplicates_witness:
  "rewriteFeed (str ''//h/p/'') (str ''cGFzcw=='')
     [str ''//h/p/:username=a'', str '' //h/p/:username=b'', str ''//h/p/:_password=c'',
      str ''//h/p/:_password=d'', str ''//h/p/:email=e'', str ''//h/p/:email=f''] ! 0
     = str ''//h/p/:username=VssSessionToken''
   \<and> rewriteFeed (str ''//h/p/'') (str ''cGFzcw=='')
     [str ''//h/p/:username=a'', str '' //h/p/:username=b'', str ''//h/p/:_password=c'',
      str ''//h/p/:_password=d'', str ''//h/p/:email=e'', str ''//h/p/:email=f''] ! 1
     = str ''//h/p/:username=VssSessionToken''
   \<and> 2 \<le> count_list (rewriteFeed (str ''//h/p/'') (str ''cGFzcw=='')
     [str ''//h/p/:username=a'', str '' //h/p/:username=b'', str ''//h/p/:_password=c'',
      str ''//h/p/:_password=d'', str ''//h/p/:email=e'', str ''//h/p/:email=f''])
       (str ''//h/p/:username=VssSessionToken'')
   \<and> 2 \<le> count_list (rewriteFeed (str ''//h/p/'') (str ''cGFzcw=='')
     [str ''//h/p/:username=a'', str '' //h/p/:username=b'', str ''//h/p/:_password=c'',
      str ''//h/p/:_password=d'', str ''//h/p/:email=e'', str ''//h/p/:email=f''])
       (str ''//h/p/:_password=cGFzcw=='')
   \<and> 2 \<le> count_list (rewriteFeed (str ''//h/p/'') (str ''cGFzcw=='')
     [str ''//h/p/:username=a'', str '' //h/p/:username=b'', str ''//h/p/:_password=c'',
      str ''//h/p/:_password=d'', str ''//h/p/:email=e'', str ''//h/p/:email=f''])
       (str ''//h/p/:email=not-used@example.com'')"
proof -
  let ?p = "str ''//h/p/''" and ?pw = "str ''cGFzcw==''"
  let ?a = "[str ''//h/p/:username=a'', str '' //h/p/:username=b'', str ''//h/p/:_password=c'',
      str ''//h/p/:_password=d'', str ''//h/p/:email=e'', str ''//h/p/:email=f'']"
  have c: "length (filter (matchesUsername ?p) ?a) = 2" "length (filter (matchesPassword ?p) ?a) = 2"
    "length (filter (matchesEmail ?p) ?a) = 2"
    by code_simp+
  have m: "matchesUsername ?p (?a ! 0)" "matchesUsername ?p (?a ! 1)"
    by code_simp+
  have e: "usernameEntry ?p = str ''//h/p/:username=VssSessionToken''"
     "passwordEntry ?p ?pw = str ''//h/p/:_password=cGFzcw==''"
     "emailEntry ?p = str ''//h/p/:email=not-used@example.com''"
    by code_simp+
  have l: "length ?a = 6" by simp
  from rewriteFeed_keeps_duplicates[of ?p ?a ?pw] c
  have u: "\<forall>i<length ?a. matchesUsername ?p (?a ! i) \<longrightarrow> rewriteFeed ?p ?pw ?a ! i = usernameEntry ?p"
    and n: "2 \<le> count_list (rewriteFeed ?p ?pw ?a) (usernameEntry ?p)"
      "2 \<le> count_list (rewriteFeed ?p ?pw ?a) (passwordEntry ?p ?pw)"
      "2 \<le> count_list (rewriteFeed ?p ?pw ?a) (emailEntry ?p)"
    by simp_all
  have "rewriteFeed ?p ?pw ?a ! 0 = usernameEntry ?p" "rewriteFeed ?p ?pw ?a ! 1 = usernameEntry ?p"
    using u m l by simp_all
  then show ?thesis using n unfolding e by simp
qed

text \<open>
  C9. The match is by prefix of the trimmed line, not by key: a line whose trimmed content is
  a sub-key prefix followed by further key characters and then \<open>=\<close> (as \<open>:emailaddress=x\<close>
  for the sub-key \<open>:email\<close>) is overwritten as a whole with the generated entry, whose key is
  the sub-key itself and no longer the longer key.
\<close>

theorem rewriteFeed_matches_by_prefix:
  "i < length ls \<Longrightarrow> extra \<noteq> [] \<Longrightarrow> 0x3D \<notin> set extra \<Longrightarrow>
   (trim (ls ! i) = usernamePrefix p @ extra @ 0x3D # v \<longrightarrow>
      rewriteFeed p pw ls ! i = usernameEntry p \<and>
      \<not> startsWith (rewriteFeed p pw ls ! i) (usernamePrefix p @ extra @ [0x3D])) \<and>
   (trim (ls ! i) = passwordPrefix p @ extra @ 0x3D # v \<longrightarrow>
      rewriteFeed p pw ls ! i = passwordEntry p pw \<and>
      \<not> startsWith (rewriteFeed p pw ls ! i) (passwordPrefix p @ extra @ [0x3D])) \<and>
   (trim (ls ! i) = emailPrefix p @ extra @ 0x3D # v \<longrightarrow>
      rewriteFeed p pw ls ! i = emailEntry p \<and>
      \<not> startsWith (rewriteFeed p pw ls ! i) (emailPrefix p @ extra @ [0x3D]))"
proof -
  assume i: "i < length ls" and ex: "extra \<noteq> []" "0x3D \<notin> set extra"
  obtain c cs where extra: "extra = c # cs" and c: "c \<noteq> 0x3D"
    using ex by (cases extra) auto
  have no: "\<not> startsWith (k @ str ''='' @ w) (k @ extra @ [0x3D])" for k w
    using c by (simp add: startsWith_prefix extra str_def)
  have m: "trim (ls ! i) = k @ extra @ 0x3D # v \<Longrightarrow> startsWith (trim (ls ! i)) k" for k
    by (simp add: startsWith_prefix)
  show ?thesis
    using newLine_cases[of p "ls ! i" pw] m no[of "usernamePrefix p" "str ''VssSessionToken''"]
      no[of "passwordPrefix p" pw] no[of "emailPrefix p" "str ''not-used@example.com''"]
    by (auto simp: rewriteFeed_nth[OF i] matchesUsername_def matchesPassword_def
        matchesEmail_def usernameEntry_def passwordEntry_def emailEntry_def str_def)
qed

theorem rewriteFeed_matches_by_prefix_witness:
  "rewriteFeed (str ''//h/p/'') (str ''cGFzcw=='')
     [str ''//h/p/:usernames=x'', str ''//h/p/:_password2=y'', str '' //h/p/:emailaddress=x '']
   = [str ''//h/p/:username=VssSessionToken'', str ''//h/p/:_password=cGFzcw=='',
      str ''//h/p/:email=not-used@example.com'']"
proof -
  let ?p = "str ''//h/p/''" and ?pw = "str ''cGFzcw==''"
  let ?a = "[str ''//h/p/:usernames=x'', str ''//h/p/:_password2=y'', str '' //h/p/:emailaddress=x '']"
  have t: "trim (?a ! 0) = usernamePrefix ?p @ str ''s'' @ 0x3D # str ''x''"
    "trim (?a ! 1) = passwordPrefix ?p @ str ''2'' @ 0x3D # str ''y''"
    "trim (?a ! 2) = emailPrefix ?p @ str ''address'' @ 0x3D # str ''x''"
    by code_simp+
  have x: "str ''s'' \<noteq> []" "0x3D \<notin> set (str ''s'')" "str ''2'' \<noteq> []" "0x3D \<notin> set (str ''2'')"
    "str ''address'' \<noteq> []" "0x3D \<notin> set (str ''address'')"
    by code_simp+
  have e: "usernameEntry ?p = str ''//h/p/:username=VssSessionToken''"
     "passwordEntry ?p ?pw = str ''//h/p/:_password=cGFzcw==''"
     "emailEntry ?p = str ''//h/p/:email=not-used@example.com''"
    by code_simp+
  have 0: "rewriteFeed ?p ?pw ?a ! 0 = usernameEntry ?p"
    using rewriteFeed_matches_by_prefix[where i = 0 and ls = ?a and extra = "str ''s''" and v = "str ''x''" and p = ?p and pw = ?pw] t(1) x by simp
  have 1: "rewriteFeed ?p ?pw ?a ! 1 = passwordEntry ?p ?pw"
    using rewriteFeed_matches_by_prefix[where i = 1 and ls = ?a and extra = "str ''2''" and v = "str ''y''" and p = ?p and pw = ?pw] t(2) x by simp
  have 2: "rewriteFeed ?p ?pw ?a ! 2 = emailEntry ?p"
    using rewriteFeed_matches_by_prefix[where i = 2 and ls = ?a and extra = "str ''address''" and v = "str ''x''" and p = ?p and pw = ?pw] t(3) x by simp
  have l: "length (rewriteFeed ?p ?pw ?a) = 3" by code_simp
  show ?thesis using 0 1 2 l unfolding e
    by (auto simp: list_eq_iff_nth_eq less_Suc_eq numeral_eq_Suc)
qed

section \<open>Claims about the loop over the feeds\<close>

text \<open>
  C4. For feed URLs that passed the validation the loop over the feeds returns, the array
  never shrinks, and every line of the file whose trimmed content starts with none of the three
  sub-key prefixes of any processed feed is at the same index with the same content afterwards.
\<close>

theorem feedLoop_frame:
  assumes "\<forall>s\<in>set feeds. isFeedUrl newURL s"
  shows "\<exists>ls'. feedLoop newURL pw feeds ls = Inr ls' \<and> length ls \<le> length ls' \<and>
    (\<forall>i<length ls.
       (\<forall>s\<in>set feeds. \<forall>u. newURL s = Some u \<longrightarrow>
           \<not> matchesUsername (globalNpmrcKeyPrefix u) (ls ! i) \<and>
           \<not> matchesPassword (globalNpmrcKeyPrefix u) (ls ! i) \<and>
           \<not> matchesEmail (globalNpmrcKeyPrefix u) (ls ! i))
       \<longrightarrow> ls' ! i = ls ! i)"
  using assms
proof (induction feeds arbitrary: ls)
  case Nil
  then show ?case by simp
next
  case (Cons s feeds)
  from Cons.prems obtain u where u: "newURL s = Some u"
    by (auto simp: isFeedUrl_def URLPattern_test_def URLPattern_exec_def split: option.splits)
  let ?l1 = "rewriteFeed (globalNpmrcKeyPrefix u) pw ls"
  from Cons.prems have "\<forall>s\<in>set feeds. isFeedUrl newURL s" by simp
  from Cons.IH[OF this, of ?l1] obtain ls' where
    r: "feedLoop newURL pw feeds ?l1 = Inr ls'" and len: "length ?l1 \<le> length ls'"
    and fr: "\<forall>i<length ?l1.
       (\<forall>s\<in>set feeds. \<forall>u. newURL s = Some u \<longrightarrow>
           \<not> matchesUsername (globalNpmrcKeyPrefix u) (?l1 ! i) \<and>
           \<not> matchesPassword (globalNpmrcKeyPrefix u) (?l1 ! i) \<and>
           \<not> matchesEmail (globalNpmrcKeyPrefix u) (?l1 ! i))
       \<longrightarrow> ls' ! i = ?l1 ! i"
    by blast
  have l1: "length ls \<le> length ?l1" by (simp add: rewriteFeed_eq)
  have "ls' ! i = ls ! i" if i: "i < length ls" and un: "\<forall>s'\<in>set (s # feeds). \<forall>u. newURL s' = Some u \<longrightarrow>
           \<not> matchesUsername (globalNpmrcKeyPrefix u) (ls ! i) \<and>
           \<not> matchesPassword (globalNpmrcKeyPrefix u) (ls ! i) \<and>
           \<not> matchesEmail (globalNpmrcKeyPrefix u) (ls ! i)" for i
  proof -
    have same: "?l1 ! i = ls ! i"
      using un u newLine_cases[of "globalNpmrcKeyPrefix u" "ls ! i" pw]
      by (simp add: rewriteFeed_nth[OF i])
    have "i < length ?l1" using i l1 by simp
    with fr un same show ?thesis by simp
  qed
  with r u len l1 show ?case by auto
qed

theorem feedLoop_frame_witness:
  "isFeedUrl exampleURL orgFeedUrl \<and>
   (\<exists>ls'. feedLoop exampleURL (str ''cGFzcw=='') [orgFeedUrl]
            [str ''; a comment'', str ''registry=https://registry.npmjs.org/'', []] = Inr ls' \<and>
          ls' ! 0 = str ''; a comment'' \<and> ls' ! 1 = str ''registry=https://registry.npmjs.org/'' \<and>
          ls' ! 2 = [])"
proof -
  let ?ls = "[str ''; a comment'', str ''registry=https://registry.npmjs.org/'', []]"
  let ?pw = "str ''cGFzcw==''"
  have v: "\<forall>s\<in>set [orgFeedUrl]. isFeedUrl exampleURL s" by code_simp
  have un: "\<forall>i<length ?ls. \<forall>s\<in>set [orgFeedUrl]. \<forall>u. exampleURL s = Some u \<longrightarrow>
           \<not> matchesUsername (globalNpmrcKeyPrefix u) (?ls ! i) \<and>
           \<not> matchesPassword (globalNpmrcKeyPrefix u) (?ls ! i) \<and>
           \<not> matchesEmail (globalNpmrcKeyPrefix u) (?ls ! i)"
  proof -
    obtain u0 where u0: "exampleURL orgFeedUrl = Some u0" by (simp add: exampleURL_def)
    have B: "\<forall>l\<in>set ?ls.
          \<not> matchesUsername (globalNpmrcKeyPrefix (the (exampleURL orgFeedUrl))) l \<and>
          \<not> matchesPassword (globalNpmrcKeyPrefix (the (exampleURL orgFeedUrl))) l \<and>
          \<not> matchesEmail (globalNpmrcKeyPrefix (the (exampleURL orgFeedUrl))) l"
      by code_simp
    show ?thesis
    proof (intro allI impI ballI)
      fix i s u
      assume i: "i < length ?ls" and s: "s \<in> set [orgFeedUrl]" and u: "exampleURL s = Some u"
      from i have "?ls ! i \<in> set ?ls" by (rule nth_mem)
      moreover from s u have "u = the (exampleURL orgFeedUrl)" by simp
      ultimately show "\<not> matchesUsername (globalNpmrcKeyPrefix u) (?ls ! i) \<and>
           \<not> matchesPassword (globalNpmrcKeyPrefix u) (?ls ! i) \<and>
           \<not> matchesEmail (globalNpmrcKeyPrefix u) (?ls ! i)"
        using B by blast
    qed
  qed
  from feedLoop_frame[OF v, of ?pw ?ls] obtain ls' where
    r: "feedLoop exampleURL ?pw [orgFeedUrl] ?ls = Inr ls'"
    and fr: "\<forall>i<length ?ls.
       (\<forall>s\<in>set [orgFeedUrl]. \<forall>u. exampleURL s = Some u \<longrightarrow>
           \<not> matchesUsername (globalNpmrcKeyPrefix u) (?ls ! i) \<and>
           \<not> matchesPassword (globalNpmrcKeyPrefix u) (?ls ! i) \<and>
           \<not> matchesEmail (globalNpmrcKeyPrefix u) (?ls ! i))
       \<longrightarrow> ls' ! i = ?ls ! i"
    by blast
  from fr un have "\<forall>i<length ?ls. ls' ! i = ?ls ! i" by blast
  then have "ls' ! 0 = ?ls ! 0" "ls' ! 1 = ?ls ! 1" "ls' ! 2 = ?ls ! 2" by simp_all
  with r v show ?thesis by simp
qed

section \<open>Token validation\<close>

lemma repeatAtLeast_end:
  "[] \<in> set (repeatAtLeast n s) \<longleftrightarrow> n \<le> length s \<and> (\<forall>c\<in>set s. classMatch c)"
proof (induction s arbitrary: n)
  case Nil
  then show ?case by simp
next
  case (Cons c cs)
  show ?case by (cases n) (auto simp: Cons.IH)
qed

lemma canonical_class:
  "map canonicalize patClass = map of_nat ([65..<91] @ [48..<58])"
  by code_simp

lemma mem_of_nat_upt:
  fixes c :: code_unit
  assumes "n \<le> 65536"
  shows "c \<in> set (map of_nat [m..<n]) \<longleftrightarrow> m \<le> unat c \<and> unat c < n"
proof
  assume "c \<in> set (map of_nat [m..<n])"
  then obtain k where k: "c = of_nat k" "m \<le> k" "k < n" by auto
  with assms have "unat c = k" by (simp add: unat_of_nat)
  with k show "m \<le> unat c \<and> unat c < n" by simp
next
  assume "m \<le> unat c \<and> unat c < n"
  then have "unat c \<in> set [m..<n]" by simp
  then have "(of_nat (unat c) :: code_unit) \<in> of_nat ` set [m..<n]" by (rule imageI)
  moreover have "(of_nat (unat c) :: code_unit) = c" by simp
  ultimately show "c \<in> set (map of_nat [m..<n])" by (simp del: set_upt)
qed

lemma classMatch_iff: "classMatch c \<longleftrightarrow> isAsciiAlnum c"
proof -
  have 1: "classMatch c \<longleftrightarrow> (65 \<le> unat (canonicalize c) \<and> unat (canonicalize c) < 91) \<or>
      (48 \<le> unat (canonicalize c) \<and> unat (canonicalize c) < 58)"
    unfolding classMatch_def canonical_class map_append set_append Un_iff
    by (simp only: mem_of_nat_upt)
  have 2: "unat (c - 0x20) = unat c - 32" if "0x61 \<le> c"
    using that by (simp add: unat_sub word_le_nat_alt)
  show ?thesis
    unfolding 1 isAsciiAlnum_def canonicalize_def
    using 2 by (auto simp: word_le_nat_alt)
qed

text \<open>
  C5. \<open>isPat\<close> accepts a string exactly when it has at least 52 code units and every one of
  them is an ASCII letter, of either case, or an ASCII digit.
\<close>

theorem isPat_iff:
  "isPat input \<longleftrightarrow> 52 \<le> length input \<and> (\<forall>c\<in>set input. isAsciiAlnum c)"
  by (simp add: isPat_def repeatAtLeast_end classMatch_iff)

theorem isPat_iff_witness:
  "isPat (replicate 52 0x41) \<and> \<not> isPat (replicate 51 0x41) \<and> \<not> isPat (replicate 51 0x41 @ [0x2D])"
  using isPat_iff[of "replicate 52 0x41"] isPat_iff[of "replicate 51 0x41"]
    isPat_iff[of "replicate 51 0x41 @ [0x2D]"]
  by (simp add: isAsciiAlnum_def)

section \<open>Splitting and joining lines\<close>

lemma js_split_nonempty: "js_split sep s \<noteq> []"
  by (induction s) (auto split: list.splits)

lemma js_split_Cons:
  "js_split sep (c # cs) =
     (if c = sep then [] # js_split sep cs
      else (c # hd (js_split sep cs)) # tl (js_split sep cs))"
  using js_split_nonempty[of sep cs] by (cases "js_split sep cs") auto

lemma js_split_no_sep: "l \<in> set (js_split sep s) \<Longrightarrow> sep \<notin> set l"
proof (induction s arbitrary: l)
  case Nil
  then show ?case by simp
next
  case (Cons c cs)
  obtain h t where ht: "js_split sep cs = h # t"
    using js_split_nonempty[of sep cs] by (cases "js_split sep cs") auto
  with Cons show ?case by (auto simp: js_split_Cons split: if_splits)
qed

lemma js_join_split: "js_join sep (js_split sep s) = s"
proof (induction s)
  case Nil
  then show ?case by simp
next
  case (Cons c cs)
  obtain h t where ht: "js_split sep cs = h # t"
    using js_split_nonempty[of sep cs] by (cases "js_split sep cs") auto
  with Cons show ?case by (cases t) (auto simp: js_split_Cons)
qed

lemma js_split_join:
  "ls \<noteq> [] \<Longrightarrow> \<forall>l\<in>set ls. sep \<notin> set l \<Longrightarrow> js_split sep (js_join sep ls) = ls"
proof (induction sep ls rule: js_join.induct)
  case (1 sep)
  then show ?case by simp
next
  case (2 sep x)
  then show ?case
    by (induction x) (auto simp: js_split_Cons)
next
  case (3 sep x y zs)
  then have IH: "js_split sep (js_join sep (y # zs)) = y # zs" by simp
  from 3 have x: "sep \<notin> set x" by simp
  have "js_split sep (x @ sep # r) = x # js_split sep r" for r
    using x by (induction x) (auto simp: js_split_Cons)
  then show ?case using IH by simp
qed

lemma js_split_prefix:
  "prefix p q \<Longrightarrow>
   length (js_split sep p) \<le> length (js_split sep q) \<and>
   butlast (js_split sep p) = take (length (js_split sep p) - 1) (js_split sep q)"
proof (induction p arbitrary: q)
  case Nil
  then show ?case using js_split_nonempty[of sep q] by (cases "js_split sep q") auto
next
  case (Cons c cs)
  then obtain q' where q: "q = c # q'" and pre: "prefix cs q'"
    by (cases q) auto
  obtain h t where ht: "js_split sep cs = h # t"
    using js_split_nonempty[of sep cs] by (cases "js_split sep cs") auto
  obtain h' t' where ht': "js_split sep q' = h' # t'"
    using js_split_nonempty[of sep q'] by (cases "js_split sep q'") auto
  from Cons.IH[OF pre] ht ht'
  have len: "length t \<le> length t'" and bl: "butlast (h # t) = take (length t) (h' # t')"
    by simp_all
  show ?case
  proof (cases "c = sep")
    case True
    then show ?thesis using len bl by (simp add: q js_split_Cons ht ht')
  next
    case False
    then show ?thesis using len bl by (cases t) (auto simp: q js_split_Cons ht ht')
  qed
qed

section \<open>The key prefixes of feed URLs\<close>

text \<open>
  A pathname that matches one of the two patterns has five or six non-empty segments between
  its slashes. No such pathname is a proper prefix of another one, so a line that starts with
  the key prefix of one feed starts with the key prefix of no other feed.
\<close>

lemma matchSegments_Nil: "matchSegments [] xs = Some g \<longleftrightarrow> xs = [] \<and> g = []"
  by (cases xs) auto

lemma matchSegments_Literal:
  "matchSegments (Literal l # ps) xs = Some g \<longleftrightarrow>
     (\<exists>xs'. xs = l # xs' \<and> matchSegments ps xs' = Some g)"
  by (cases xs) auto

lemma matchSegments_Named:
  "matchSegments (Named n # ps) xs = Some g \<longleftrightarrow>
     (\<exists>x xs' g'. xs = x # xs' \<and> x \<noteq> [] \<and> matchSegments ps xs' = Some g' \<and> g = (n, x) # g')"
  by (cases xs) auto

lemmas matchSegments_iffs = matchSegments_Nil matchSegments_Literal matchSegments_Named

definition orgPath :: "jsstring \<Rightarrow> bool" where
  "orgPath p \<longleftrightarrow> (\<exists>a b. a \<noteq> [] \<and> b \<noteq> [] \<and>
     js_split slash p = [[], a, str ''_packaging'', b, str ''npm'', str ''registry'', []])"

definition projectPath :: "jsstring \<Rightarrow> bool" where
  "projectPath p \<longleftrightarrow> (\<exists>a c b. a \<noteq> [] \<and> c \<noteq> [] \<and> b \<noteq> [] \<and>
     js_split slash p = [[], a, c, str ''_packaging'', b, str ''npm'', str ''registry'', []])"

lemma org_match_gen:
  "matchSegments [Literal e, Named n1, Literal l1, Named n2, Literal l2, Literal l3, Literal e'] xs
      = Some g \<longleftrightarrow>
     (\<exists>a b. a \<noteq> [] \<and> b \<noteq> [] \<and> xs = [e, a, l1, b, l2, l3, e'] \<and> g = [(n1, a), (n2, b)])"
  by (simp add: matchSegments_iffs) (safe; simp)

lemma project_match_gen:
  "matchSegments [Literal e, Named n1, Named n3, Literal l1, Named n2, Literal l2, Literal l3, Literal e'] xs
      = Some g \<longleftrightarrow>
     (\<exists>a c b. a \<noteq> [] \<and> c \<noteq> [] \<and> b \<noteq> [] \<and> xs = [e, a, c, l1, b, l2, l3, e'] \<and>
        g = [(n1, a), (n3, c), (n2, b)])"
  by (simp add: matchSegments_iffs) (safe; simp)

lemma org_match:
  "matchSegments (pattern_pathname azureDevOpsOrganizationFeedPattern) xs = Some g \<longleftrightarrow>
     (\<exists>a b. a \<noteq> [] \<and> b \<noteq> [] \<and>
        xs = [[], a, str ''_packaging'', b, str ''npm'', str ''registry'', []] \<and>
        g = [(''organization'', a), (''feed'', b)])"
  unfolding azureDevOpsOrganizationFeedPattern_def URLPattern.simps
  by (rule org_match_gen)

lemma project_match:
  "matchSegments (pattern_pathname azureDevOpsProjectFeedPattern) xs = Some g \<longleftrightarrow>
     (\<exists>a c b. a \<noteq> [] \<and> c \<noteq> [] \<and> b \<noteq> [] \<and>
        xs = [[], a, c, str ''_packaging'', b, str ''npm'', str ''registry'', []] \<and>
        g = [(''organization'', a), (''project'', c), (''feed'', b)])"
  unfolding azureDevOpsProjectFeedPattern_def URLPattern.simps
  by (rule project_match_gen)

lemma js_split_inj: "js_split sep p = js_split sep q \<Longrightarrow> p = q"
  by (metis js_join_split)

lemma seg_prefix_gen:
  assumes pre: "length xs \<le> length ys \<and> butlast xs = take (length xs - 1) ys"
    and xs: "(\<exists>a b. xs = [e, a, l1, b, l2, l3, e]) \<or> (\<exists>a c b. xs = [e, a, c, l1, b, l2, l3, e])"
    and ys: "(\<exists>a b. ys = [e, a, l1, b, l2, l3, e]) \<or> (\<exists>a c b. ys = [e, a, c, l1, b, l2, l3, e])"
    and ne: "l3 \<noteq> l2"
  shows "xs = ys"
  using xs ys
proof (elim disjE exE)
  fix a b a' b'
  assume "xs = [e, a, l1, b, l2, l3, e]" "ys = [e, a', l1, b', l2, l3, e]"
  with pre show ?thesis by simp
next
  fix a b a' b' c'
  assume "xs = [e, a, l1, b, l2, l3, e]" "ys = [e, a', c', l1, b', l2, l3, e]"
  with pre ne show ?thesis by (simp add: numeral_eq_Suc)
next
  fix a b c a' b'
  assume "xs = [e, a, c, l1, b, l2, l3, e]" "ys = [e, a', l1, b', l2, l3, e]"
  with pre show ?thesis by simp
next
  fix a b c a' b' c'
  assume "xs = [e, a, c, l1, b, l2, l3, e]" "ys = [e, a', c', l1, b', l2, l3, e]"
  with pre show ?thesis by simp
qed

definition isFeedKey :: "jsstring \<Rightarrow> bool" where
  "isFeedKey k \<longleftrightarrow>
     (\<exists>p. k = str ''//'' @ str ''pkgs.dev.azure.com'' @ p \<and> (orgPath p \<or> projectPath p))"

definition touches :: "jsstring \<Rightarrow> jsstring \<Rightarrow> bool" where
  "touches k l \<longleftrightarrow> matchesUsername k l \<or> matchesPassword k l \<or> matchesEmail k l"

lemma URLPattern_exec_Some:
  "URLPattern_exec newURL pattern input = Some g \<longleftrightarrow>
     (\<exists>u. newURL input = Some u \<and> protocol u = pattern_protocol pattern @ str '':'' \<and>
          hostname u = pattern_hostname pattern \<and> port u = pattern_port pattern \<and>
          matchSegments (pattern_pathname pattern) (js_split slash (pathname u)) = Some g)"
  by (auto simp: URLPattern_exec_def split: option.splits)

lemma isFeedUrl_key:
  assumes "isFeedUrl newURL s"
  shows "\<exists>u. newURL s = Some u \<and> hostname u = str ''pkgs.dev.azure.com'' \<and>
    isFeedKey (globalNpmrcKeyPrefix u)"
proof -
  from assms consider g where "URLPattern_exec newURL azureDevOpsOrganizationFeedPattern s = Some g"
    | g where "URLPattern_exec newURL azureDevOpsProjectFeedPattern s = Some g"
    by (auto simp: isFeedUrl_def URLPattern_test_def)
  then show ?thesis
  proof cases
    case 1
    then obtain u where u: "newURL s = Some u"
      "hostname u = pattern_hostname azureDevOpsOrganizationFeedPattern"
      "matchSegments (pattern_pathname azureDevOpsOrganizationFeedPattern)
         (js_split slash (pathname u)) = Some g"
      unfolding URLPattern_exec_Some by blast
    from u(3) have "orgPath (pathname u)"
      unfolding org_match orgPath_def by blast
    with u(1,2) show ?thesis
      by (auto simp: isFeedKey_def globalNpmrcKeyPrefix_def azureDevOpsOrganizationFeedPattern_def)
  next
    case 2
    then obtain u where u: "newURL s = Some u"
      "hostname u = pattern_hostname azureDevOpsProjectFeedPattern"
      "matchSegments (pattern_pathname azureDevOpsProjectFeedPattern)
         (js_split slash (pathname u)) = Some g"
      unfolding URLPattern_exec_Some by blast
    from u(3) have "projectPath (pathname u)"
      unfolding project_match projectPath_def by blast
    with u(1,2) show ?thesis
      by (auto simp: isFeedKey_def globalNpmrcKeyPrefix_def azureDevOpsProjectFeedPattern_def)
  qed
qed

lemma lit_ne: "str ''registry'' \<noteq> str ''npm''"
  by (simp add: str_def)

lemma feed_path_prefix:
  assumes p: "orgPath p \<or> projectPath p" and q: "orgPath q \<or> projectPath q"
    and pre: "prefix p q"
  shows "p = q"
proof -
  have "js_split slash p = js_split slash q"
  proof (rule seg_prefix_gen[OF js_split_prefix[OF pre, of slash] _ _ lit_ne])
    show "(\<exists>a b. js_split slash p = [[], a, str ''_packaging'', b, str ''npm'', str ''registry'', []]) \<or>
      (\<exists>a c b. js_split slash p = [[], a, c, str ''_packaging'', b, str ''npm'', str ''registry'', []])"
      using p unfolding orgPath_def projectPath_def by blast
    show "(\<exists>a b. js_split slash q = [[], a, str ''_packaging'', b, str ''npm'', str ''registry'', []]) \<or>
      (\<exists>a c b. js_split slash q = [[], a, c, str ''_packaging'', b, str ''npm'', str ''registry'', []])"
      using q unfolding orgPath_def projectPath_def by blast
  qed
  then show ?thesis by (rule js_split_inj)
qed

lemma feedKey_prefix:
  "isFeedKey k1 \<Longrightarrow> isFeedKey k2 \<Longrightarrow> prefix k1 k2 \<Longrightarrow> k1 = k2"
  unfolding isFeedKey_def using feed_path_prefix by (metis same_prefix_prefix)

section \<open>A second run changes nothing\<close>

text \<open>
  An array is settled for a key prefix when it has a line for each of the three sub-keys and
  every line that starts with one of them is the generated entry. The rewrite for a feed
  settles the array for its key prefix, leaves a settled array as it is, and keeps it settled
  for the key prefixes of the other feeds.
\<close>

lemma trim_keeps_prefix:
  assumes "s \<noteq> []" "\<not> isWhiteSpace (hd s)" "\<not> isWhiteSpace (last s)"
  shows "prefix s (trim (s @ r))"
proof -
  from assms obtain c cs where s: "s = c # cs" and c: "\<not> isWhiteSpace c"
    by (cases s) auto
  have fr: "dropWhile isWhiteSpace (s @ r) = s @ r"
    by (simp add: s c)
  have bk: "dropWhile isWhiteSpace (rev s) = rev s"
    using assms by (cases "rev s") (auto simp: hd_rev)
  have "\<exists>x. dropWhile isWhiteSpace (rev r @ rev s) = x @ rev s"
    by (cases "\<forall>x\<in>set (rev r). isWhiteSpace x")
       (auto simp: dropWhile_append1 dropWhile_append2 bk simp del: set_rev)
  then obtain x where "dropWhile isWhiteSpace (rev (s @ r)) = x @ rev s" by auto
  then have "trim (s @ r) = s @ rev x"
    by (simp add: trim_def fr)
  then show ?thesis by simp
qed

lemma feedKey_hd: "isFeedKey k \<Longrightarrow> k \<noteq> [] \<and> hd k = slash"
  by (auto simp: isFeedKey_def str_def slash_def)

lemma not_ws:
  "\<not> isWhiteSpace slash" "\<not> isWhiteSpace (last (str '':username''))"
  "\<not> isWhiteSpace (last (str '':_password''))" "\<not> isWhiteSpace (last (str '':email''))"
  by (simp_all add: isWhiteSpace_def slash_def str_def)

lemma entry_matches:
  assumes "isFeedKey k"
  shows "matchesUsername k (usernameEntry k) \<and> matchesPassword k (passwordEntry k pw) \<and>
    matchesEmail k (emailEntry k)"
proof -
  from feedKey_hd[OF assms] have k: "k \<noteq> []" "\<not> isWhiteSpace (hd k)"
    using not_ws(1) by simp_all
  have "prefix (k @ sub) (trim ((k @ sub) @ r))" if "sub \<noteq> []" "\<not> isWhiteSpace (last sub)" for sub r
    using k that by (intro trim_keeps_prefix) simp_all
  from this[of "str '':username''"] this[of "str '':_password''"] this[of "str '':email''"]
  show ?thesis
    using not_ws
    by (simp add: matchesUsername_def matchesPassword_def matchesEmail_def startsWith_prefix
        usernameEntry_def passwordEntry_def emailEntry_def usernamePrefix_def passwordPrefix_def
        emailPrefix_def str_def)
qed

lemma touches_prefix: "touches k l \<Longrightarrow> prefix k (trim l)"
  by (auto simp: touches_def matchesUsername_def matchesPassword_def matchesEmail_def
      startsWith_prefix usernamePrefix_def passwordPrefix_def emailPrefix_def
      dest: append_prefixD)

lemma touches_same_key:
  assumes "isFeedKey k1" "isFeedKey k2" "touches k1 l" "touches k2 l"
  shows "k1 = k2"
proof -
  from assms(3,4) have "prefix k1 (trim l)" "prefix k2 (trim l)"
    by (simp_all add: touches_prefix)
  then have "prefix k1 k2 \<or> prefix k2 k1"
    by (rule prefix_same_cases)
  with assms(1,2) show ?thesis using feedKey_prefix by blast
qed

lemma newLine_untouched: "\<not> touches k l \<Longrightarrow> newLine k pw l = l"
  using newLine_cases[of k l pw] by (simp add: touches_def)

lemma newLine_entry:
  "touches k l \<Longrightarrow> newLine k pw l \<in> {usernameEntry k, passwordEntry k pw, emailEntry k}"
  using newLine_cases[of k l pw] by (auto simp: touches_def)

lemma entry_touches:
  "isFeedKey k \<Longrightarrow> e \<in> {usernameEntry k, passwordEntry k pw, emailEntry k} \<Longrightarrow> touches k e"
  using entry_matches[of k pw] by (auto simp: touches_def)

lemma entry_fixed:
  "isFeedKey k \<Longrightarrow> e \<in> {usernameEntry k, passwordEntry k pw, emailEntry k} \<Longrightarrow>
   newLine k pw e = e"
  using entry_matches[of k pw] newLine_cases[of k e pw] by auto

definition settled :: "jsstring \<Rightarrow> jsstring \<Rightarrow> jsstring list \<Rightarrow> bool" where
  "settled k pw ls \<longleftrightarrow>
     (\<exists>l\<in>set ls. matchesUsername k l) \<and> (\<exists>l\<in>set ls. matchesPassword k l) \<and>
     (\<exists>l\<in>set ls. matchesEmail k l) \<and> (\<forall>l\<in>set ls. newLine k pw l = l)"

lemma settled_fixed: "settled k pw ls \<Longrightarrow> rewriteFeed k pw ls = ls"
  by (simp add: settled_def rewriteFeed_eq map_idI)

lemma rewriteFeed_set:
  "set (rewriteFeed k pw ls) \<subseteq> newLine k pw ` set ls \<union> {usernameEntry k, passwordEntry k pw, emailEntry k}"
  by (auto simp: rewriteFeed_eq)

lemma newLine_idem: "isFeedKey k \<Longrightarrow> newLine k pw (newLine k pw l) = newLine k pw l"
  using newLine_untouched[of k l pw] newLine_entry[of k l pw] entry_fixed[of k _ pw]
  by (cases "touches k l") auto

lemma rewriteFeed_settles:
  assumes "isFeedKey k"
  shows "settled k pw (rewriteFeed k pw ls)"
proof -
  have fx: "\<forall>l\<in>set (rewriteFeed k pw ls). newLine k pw l = l"
    using rewriteFeed_set[of k pw ls] newLine_idem[OF assms] entry_fixed[OF assms, of _ pw]
    by blast
  have u: "\<exists>l\<in>set (rewriteFeed k pw ls). matchesUsername k l"
  proof (cases "\<exists>l\<in>set ls. matchesUsername k l")
    case True
    then obtain l where "l \<in> set ls" "matchesUsername k l" by blast
    then have "usernameEntry k \<in> set (rewriteFeed k pw ls)"
      using newLine_cases[of k l pw] by (force simp: rewriteFeed_eq)
    then show ?thesis using entry_matches[OF assms, of pw] by blast
  next
    case False
    then have "usernameEntry k \<in> set (rewriteFeed k pw ls)" by (simp add: rewriteFeed_eq)
    then show ?thesis using entry_matches[OF assms, of pw] by blast
  qed
  have p: "\<exists>l\<in>set (rewriteFeed k pw ls). matchesPassword k l"
  proof (cases "\<exists>l\<in>set ls. matchesPassword k l")
    case True
    then obtain l where "l \<in> set ls" "matchesPassword k l" by blast
    then have "passwordEntry k pw \<in> set (rewriteFeed k pw ls)"
      using newLine_cases[of k l pw] by (force simp: rewriteFeed_eq)
    then show ?thesis using entry_matches[OF assms, of pw] by blast
  next
    case False
    then have "passwordEntry k pw \<in> set (rewriteFeed k pw ls)" by (simp add: rewriteFeed_eq)
    then show ?thesis using entry_matches[OF assms, of pw] by blast
  qed
  have e: "\<exists>l\<in>set (rewriteFeed k pw ls). matchesEmail k l"
  proof (cases "\<exists>l\<in>set ls. matchesEmail k l")
    case True
    then obtain l where "l \<in> set ls" "matchesEmail k l" by blast
    then have "emailEntry k \<in> set (rewriteFeed k pw ls)"
      using newLine_cases[of k l pw] by (force simp: rewriteFeed_eq)
    then show ?thesis using entry_matches[OF assms, of pw] by blast
  next
    case False
    then have "emailEntry k \<in> set (rewriteFeed k pw ls)" by (simp add: rewriteFeed_eq)
    then show ?thesis using entry_matches[OF assms, of pw] by blast
  qed
  show ?thesis unfolding settled_def using fx u p e by blast
qed

lemma rewriteFeed_keeps_settled:
  assumes k: "isFeedKey k" and k': "isFeedKey k'" and s: "settled k pw ls"
  shows "settled k pw (rewriteFeed k' pw ls)"
proof (cases "k' = k")
  case True
  then show ?thesis using s by (simp add: settled_fixed)
next
  case False
  have other: "\<not> touches k e" if "e \<in> {usernameEntry k', passwordEntry k' pw, emailEntry k'}" for e
    using entry_touches[OF k' that] touches_same_key[OF k k'] False by blast
  have keep: "l \<in> set (rewriteFeed k' pw ls)" if "l \<in> set ls" "touches k l" for l
  proof -
    have "\<not> touches k' l" using touches_same_key[OF k k' that(2)] False by blast
    then have "newLine k' pw l = l" by (rule newLine_untouched)
    with that(1) show ?thesis by (force simp: rewriteFeed_eq)
  qed
  have fx: "newLine k pw l = l" if "l \<in> set (rewriteFeed k' pw ls)" for l
  proof -
    from that rewriteFeed_set[of k' pw ls]
    consider l0 where "l0 \<in> set ls" "l = newLine k' pw l0"
      | "l \<in> {usernameEntry k', passwordEntry k' pw, emailEntry k'}" by blast
    then show ?thesis
    proof cases
      case 1
      show ?thesis
      proof (cases "touches k' l0")
        case True
        then have "\<not> touches k l" using other newLine_entry[of k' l0 pw] 1(2) by simp
        then show ?thesis by (rule newLine_untouched)
      next
        case False
        then have "l = l0" using 1(2) by (simp add: newLine_untouched)
        with 1(1) s show ?thesis by (simp add: settled_def)
      qed
    next
      case 2
      then have "\<not> touches k l" by (rule other)
      then show ?thesis by (rule newLine_untouched)
    qed
  qed
  from s have "\<exists>l\<in>set ls. matchesUsername k l" "\<exists>l\<in>set ls. matchesPassword k l"
    "\<exists>l\<in>set ls. matchesEmail k l" by (simp_all add: settled_def)
  then have "\<exists>l\<in>set (rewriteFeed k' pw ls). matchesUsername k l"
    "\<exists>l\<in>set (rewriteFeed k' pw ls). matchesPassword k l"
    "\<exists>l\<in>set (rewriteFeed k' pw ls). matchesEmail k l"
    using keep by (auto simp: touches_def)
  with fx show ?thesis by (simp add: settled_def)
qed

definition rewriteAll :: "jsstring \<Rightarrow> jsstring list \<Rightarrow> jsstring list \<Rightarrow> jsstring list" where
  "rewriteAll pw ks ls = foldl (\<lambda>ls k. rewriteFeed k pw ls) ls ks"

lemma rewriteAll_simps:
  "rewriteAll pw [] ls = ls"
  "rewriteAll pw (k # ks) ls = rewriteAll pw ks (rewriteFeed k pw ls)"
  by (simp_all add: rewriteAll_def)

lemma feedLoop_rewriteAll:
  "\<forall>s\<in>set feeds. \<exists>u. newURL s = Some u \<Longrightarrow>
   feedLoop newURL pw feeds ls =
     Inr (rewriteAll pw (map (\<lambda>s. globalNpmrcKeyPrefix (the (newURL s))) feeds) ls)"
  by (induction feeds arbitrary: ls) (auto simp: rewriteAll_simps)

lemma rewriteAll_keeps_settled:
  "\<forall>k'\<in>set ks. isFeedKey k' \<Longrightarrow> isFeedKey k \<Longrightarrow> settled k pw ls \<Longrightarrow>
   settled k pw (rewriteAll pw ks ls)"
  by (induction ks arbitrary: ls) (simp_all add: rewriteAll_simps rewriteFeed_keeps_settled)

lemma rewriteAll_settles:
  "\<forall>k\<in>set ks. isFeedKey k \<Longrightarrow> \<forall>k\<in>set ks. settled k pw (rewriteAll pw ks ls)"
proof (induction ks arbitrary: ls)
  case Nil
  then show ?case by simp
next
  case (Cons k ks)
  have "settled k pw (rewriteAll pw ks (rewriteFeed k pw ls))"
    using Cons.prems by (intro rewriteAll_keeps_settled rewriteFeed_settles) simp_all
  moreover have "\<forall>k'\<in>set ks. settled k' pw (rewriteAll pw ks (rewriteFeed k pw ls))"
    using Cons.prems by (intro Cons.IH) simp
  ultimately show ?case by (simp add: rewriteAll_simps)
qed

lemma rewriteAll_fixed:
  "\<forall>k\<in>set ks. settled k pw ls \<Longrightarrow> rewriteAll pw ks ls = ls"
  by (induction ks) (simp_all add: rewriteAll_simps settled_fixed)

lemma rewriteAll_idem:
  "\<forall>k\<in>set ks. isFeedKey k \<Longrightarrow> rewriteAll pw ks (rewriteAll pw ks ls) = rewriteAll pw ks ls"
  by (intro rewriteAll_fixed rewriteAll_settles)

lemma newLine_in: "newLine k pw l \<in> {l, usernameEntry k, passwordEntry k pw, emailEntry k}"
  by (simp add: newLine_def)

lemma rewriteFeed_no_sep:
  assumes "\<forall>l\<in>set ls. c \<notin> set l" "c \<notin> set (usernameEntry k)" "c \<notin> set (passwordEntry k pw)"
    "c \<notin> set (emailEntry k)"
  shows "\<forall>l\<in>set (rewriteFeed k pw ls). c \<notin> set l"
proof
  fix l assume "l \<in> set (rewriteFeed k pw ls)"
  with rewriteFeed_set[of k pw ls]
  consider l0 where "l0 \<in> set ls" "l = newLine k pw l0"
    | "l \<in> {usernameEntry k, passwordEntry k pw, emailEntry k}" by blast
  then show "c \<notin> set l"
  proof cases
    case 1
    then show ?thesis using newLine_in[of k pw l0] assms by auto
  next
    case 2
    then show ?thesis using assms by auto
  qed
qed

lemma entries_no_LF:
  assumes "LF \<notin> set k" "LF \<notin> set pw"
  shows "LF \<notin> set (usernameEntry k)" "LF \<notin> set (passwordEntry k pw)" "LF \<notin> set (emailEntry k)"
  using assms
  by (simp_all add: usernameEntry_def passwordEntry_def emailEntry_def usernamePrefix_def
      passwordPrefix_def emailPrefix_def str_def LF_def)

lemma rewriteAll_no_LF:
  "\<forall>k\<in>set ks. LF \<notin> set k \<Longrightarrow> LF \<notin> set pw \<Longrightarrow> \<forall>l\<in>set ls. LF \<notin> set l \<Longrightarrow>
   \<forall>l\<in>set (rewriteAll pw ks ls). LF \<notin> set l"
proof (induction ks arbitrary: ls)
  case Nil
  then show ?case by (simp add: rewriteAll_simps)
next
  case (Cons k ks)
  have "\<forall>l\<in>set (rewriteFeed k pw ls). LF \<notin> set l"
    using Cons.prems entries_no_LF[of k pw] by (intro rewriteFeed_no_sep) simp_all
  with Cons show ?case by (simp add: rewriteAll_simps)
qed

lemma rewriteAll_nonempty: "ls \<noteq> [] \<Longrightarrow> rewriteAll pw ks ls \<noteq> []"
  by (induction ks arbitrary: ls) (simp_all add: rewriteAll_simps rewriteFeed_eq)

lemma b64alphabet_props: "length b64alphabet = 64" "LF \<notin> set b64alphabet"
  by (simp_all add: b64alphabet_def str_def LF_def)

lemma b64digit_no_LF: "b64digit n \<noteq> LF \<and> LF \<noteq> b64digit n"
proof -
  have "b64digit n \<in> set b64alphabet"
    unfolding b64digit_def by (rule nth_mem) (simp add: b64alphabet_props)
  then show ?thesis using b64alphabet_props(2) by auto
qed

lemma b64encode_no_LF: "LF \<notin> set (b64encode bs)"
proof -
  have "(0x3D :: code_unit) \<noteq> LF" by (simp add: LF_def)
  then show ?thesis
    by (induction bs rule: b64encode.induct) (auto simp: b64digit_no_LF)
qed

lemma btoa_no_LF: "btoa token = Inr pw \<Longrightarrow> LF \<notin> set pw"
  using b64encode_no_LF by (auto simp: btoa_def split: if_splits)

lemma key_no_LF:
  "hostname u = str ''pkgs.dev.azure.com'' \<Longrightarrow> LF \<notin> set (pathname u) \<Longrightarrow>
   LF \<notin> set (globalNpmrcKeyPrefix u)"
  by (simp add: globalNpmrcKeyPrefix_def str_def LF_def)

text \<open>
  C2. For every text of the target file, every list of feed URLs that match one of the two
  patterns and every token that \<open>btoa\<close> encodes (code units up to 255, as every token that
  passes \<open>isPat\<close>), the Config Rewriter returns a text, and applied to that text with the same
  feeds and token it returns the same text again. The URL parser is a parameter; what is used
  of it is that a pathname it returns holds no line feed (the parser of the URL Standard
  removes tabs and newlines from its input and percent-encodes control characters of a path).
\<close>

theorem configRewriter_idempotent:
  assumes valid: "\<forall>s\<in>set feeds. isFeedUrl newURL s"
    and parser: "\<forall>s\<in>set feeds. \<forall>u. newURL s = Some u \<longrightarrow> LF \<notin> set (pathname u)"
    and token: "\<forall>c\<in>set token. c \<le> 0xFF"
  shows "\<exists>t1. configRewriter newURL t feeds token = Inr t1 \<and>
              configRewriter newURL t1 feeds token = Inr t1"
proof -
  let ?ks = "map (\<lambda>s. globalNpmrcKeyPrefix (the (newURL s))) feeds"
  obtain pw where pw: "btoa token = Inr pw"
    using token by (simp add: btoa_def)
  have parsed: "\<forall>s\<in>set feeds. \<exists>u. newURL s = Some u"
    using valid isFeedUrl_key by blast
  have keys: "\<forall>k\<in>set ?ks. isFeedKey k"
    using valid isFeedUrl_key[of newURL] by fastforce
  have keysLF: "\<forall>k\<in>set ?ks. LF \<notin> set k"
  proof
    fix k assume "k \<in> set ?ks"
    then obtain s where s: "s \<in> set feeds" "k = globalNpmrcKeyPrefix (the (newURL s))" by auto
    from isFeedUrl_key[of newURL s] valid s(1) obtain u where
      u: "newURL s = Some u" "hostname u = str ''pkgs.dev.azure.com''" by blast
    with parser s(1) have "LF \<notin> set (pathname u)" by blast
    with u s(2) show "LF \<notin> set k" by (simp add: key_no_LF)
  qed
  let ?l1 = "rewriteAll pw ?ks (js_split LF t)"
  have loop: "feedLoop newURL pw feeds ls = Inr (rewriteAll pw ?ks ls)" for ls
    using parsed by (rule feedLoop_rewriteAll)
  have r1: "configRewriter newURL t feeds token = Inr (js_join LF ?l1)"
    by (simp add: configRewriter_def pw loop)
  have "\<forall>l\<in>set ?l1. LF \<notin> set l"
    using keysLF btoa_no_LF[OF pw] js_split_no_sep[of _ LF t]
    by (intro rewriteAll_no_LF) blast+
  moreover have "?l1 \<noteq> []"
    by (intro rewriteAll_nonempty js_split_nonempty)
  ultimately have sj: "js_split LF (js_join LF ?l1) = ?l1"
    by (intro js_split_join)
  have "configRewriter newURL (js_join LF ?l1) feeds token = Inr (js_join LF (rewriteAll pw ?ks ?l1))"
    by (simp add: configRewriter_def pw loop sj)
  also have "rewriteAll pw ?ks ?l1 = ?l1"
    using keys by (rule rewriteAll_idem)
  finally show ?thesis using r1 by blast
qed

theorem configRewriter_idempotent_witness:
  "configRewriter exampleURL
     (js_join LF [str ''; user settings'',
        str ''//pkgs.dev.azure.com/myorg/_packaging/myfeed/npm/registry/:_password=old''])
     [orgFeedUrl, projectFeedUrl] (str ''pass'')
   = Inr (js_join LF [str ''; user settings'',
        str ''//pkgs.dev.azure.com/myorg/_packaging/myfeed/npm/registry/:_password=cGFzcw=='',
        str ''//pkgs.dev.azure.com/myorg/_packaging/myfeed/npm/registry/:username=VssSessionToken'',
        str ''//pkgs.dev.azure.com/myorg/_packaging/myfeed/npm/registry/:email=not-used@example.com'',
        str ''//pkgs.dev.azure.com/myorg/myproj/_packaging/myfeed/npm/registry/:username=VssSessionToken'',
        str ''//pkgs.dev.azure.com/myorg/myproj/_packaging/myfeed/npm/registry/:_password=cGFzcw=='',
        str ''//pkgs.dev.azure.com/myorg/myproj/_packaging/myfeed/npm/registry/:email=not-used@example.com''])
   \<and>
   configRewriter exampleURL
     (js_join LF [str ''; user settings'',
        str ''//pkgs.dev.azure.com/myorg/_packaging/myfeed/npm/registry/:_password=cGFzcw=='',
        str ''//pkgs.dev.azure.com/myorg/_packaging/myfeed/npm/registry/:username=VssSessionToken'',
        str ''//pkgs.dev.azure.com/myorg/_packaging/myfeed/npm/registry/:email=not-used@example.com'',
        str ''//pkgs.dev.azure.com/myorg/myproj/_packaging/myfeed/npm/registry/:username=VssSessionToken'',
        str ''//pkgs.dev.azure.com/myorg/myproj/_packaging/myfeed/npm/registry/:_password=cGFzcw=='',
        str ''//pkgs.dev.azure.com/myorg/myproj/_packaging/myfeed/npm/registry/:email=not-used@example.com''])
     [orgFeedUrl, projectFeedUrl] (str ''pass'')
   = Inr (js_join LF [str ''; user settings'',
        str ''//pkgs.dev.azure.com/myorg/_packaging/myfeed/npm/registry/:_password=cGFzcw=='',
        str ''//pkgs.dev.azure.com/myorg/_packaging/myfeed/npm/registry/:username=VssSessionToken'',
        str ''//pkgs.dev.azure.com/myorg/_packaging/myfeed/npm/registry/:email=not-used@example.com'',
        str ''//pkgs.dev.azure.com/myorg/myproj/_packaging/myfeed/npm/registry/:username=VssSessionToken'',
        str ''//pkgs.dev.azure.com/myorg/myproj/_packaging/myfeed/npm/registry/:_password=cGFzcw=='',
        str ''//pkgs.dev.azure.com/myorg/myproj/_packaging/myfeed/npm/registry/:email=not-used@example.com''])"
  (is "configRewriter exampleURL ?t ?feeds ?token = Inr ?t1 \<and> _")
proof -
  have valid: "\<forall>s\<in>set ?feeds. isFeedUrl exampleURL s" by code_simp
  have parser: "\<forall>s\<in>set ?feeds. \<forall>u. exampleURL s = Some u \<longrightarrow> LF \<notin> set (pathname u)"
  proof (intro ballI allI impI)
    fix s u assume "s \<in> set ?feeds" "exampleURL s = Some u"
    then have "u = the (exampleURL orgFeedUrl) \<or> u = the (exampleURL projectFeedUrl)" by auto
    moreover have "LF \<notin> set (pathname (the (exampleURL orgFeedUrl)))"
      "LF \<notin> set (pathname (the (exampleURL projectFeedUrl)))" by code_simp+
    ultimately show "LF \<notin> set (pathname u)" by blast
  qed
  have token: "\<forall>c\<in>set ?token. c \<le> 0xFF" by code_simp
  have first: "configRewriter exampleURL ?t ?feeds ?token = Inr ?t1" by code_simp
  from configRewriter_idempotent[OF valid parser token, of ?t]
  obtain t1 where a: "configRewriter exampleURL ?t ?feeds ?token = Inr t1"
    and b: "configRewriter exampleURL t1 ?feeds ?token = Inr t1" by blast
  from a have "t1 = ?t1" unfolding first by (rule Inr_inject[symmetric])
  with b first show ?thesis by (simp only: simp_thms)
qed

section \<open>The example of the specification\<close>

text \<open>
  C1, as the specification states it: for the organization-scoped URL, the token of 52
  letters \<open>A\<close> and an empty target file the output would be the three entries and nothing
  else. The Config Rewriter does not return that text.
\<close>

theorem configRewriter_empty_target_counterexample:
  "configRewriter exampleURL [] [orgFeedUrl] (replicate 52 0x41) \<noteq>
   Inr (js_join LF
     [str ''//pkgs.dev.azure.com/myorg/_packaging/myfeed/npm/registry/:username=VssSessionToken'',
      str ''//pkgs.dev.azure.com/myorg/_packaging/myfeed/npm/registry/:_password=QUFBQUFBQUFBQUFBQUFBQUFBQUFBQUFBQUFBQUFBQUFBQUFBQUFBQUFBQUFBQUFBQUFBQQ=='',
      str ''//pkgs.dev.azure.com/myorg/_packaging/myfeed/npm/registry/:email=not-used@example.com''])"
  by code_simp

text \<open>
  C1, amended. The empty text splits into one empty line, which stays in front of the three
  appended entries: the output is an empty first line followed by exactly the username, the
  password and the email entry, separated by single line feeds and with no line feed at
  the end.
\<close>

theorem configRewriter_empty_target:
  "configRewriter exampleURL [] [orgFeedUrl] (replicate 52 0x41) =
   Inr (js_join LF
     [[],
      str ''//pkgs.dev.azure.com/myorg/_packaging/myfeed/npm/registry/:username=VssSessionToken'',
      str ''//pkgs.dev.azure.com/myorg/_packaging/myfeed/npm/registry/:_password=QUFBQUFBQUFBQUFBQUFBQUFBQUFBQUFBQUFBQUFBQUFBQUFBQUFBQUFBQUFBQUFBQUFBQQ=='',
      str ''//pkgs.dev.azure.com/myorg/_packaging/myfeed/npm/registry/:email=not-used@example.com''])"
  by code_simp

section \<open>The validation of the URLs\<close>

lemma validateUrls_invalid:
  "\<forall>s\<in>set valid. isFeedUrl (URL_new P) s \<Longrightarrow> \<not> isFeedUrl (URL_new P) value \<Longrightarrow>
   validateUrls P (valid @ value # rest) w =
     (emit (ConsoleLog (pc_red P (invalidUrlMessage value))) w, Some (Exit 1))"
  by (induction valid) simp_all

lemma validateUrls_valid:
  "\<forall>s\<in>set feeds. isFeedUrl (URL_new P) s \<Longrightarrow> validateUrls P feeds w = (w, None)"
  by (induction feeds) simp_all

text \<open>
  C8. When the token of the flag is absent or valid and a value of \<open>--url\<close> matches neither
  pattern, the run ends with exit code 1 after one message that names the first such value and
  the expected template. The message is an event \<open>ConsoleLog\<close>: it goes to the standard
  output, and nothing goes to the error stream.
\<close>

theorem main_invalid_url:
  assumes "case pat opts of None \<Rightarrow> True | Some t \<Rightarrow> t = [] \<or> isPat t"
    and "url opts = valid @ bad # rest"
    and "\<forall>s\<in>set valid. isFeedUrl (URL_new P) s"
    and "\<not> isFeedUrl (URL_new P) bad"
  shows "main P opts answers w =
    (emit (ConsoleLog (pc_red P (invalidUrlMessage bad))) w, Exit 1)"
proof -
  have "\<not> (case pat opts of None \<Rightarrow> False | Some t \<Rightarrow> t \<noteq> [] \<and> \<not> isPat t)"
    using assms(1) by (auto split: option.splits)
  then show ?thesis
    using validateUrls_invalid[OF assms(3,4), of rest w]
    by (simp add: main_def Let_def assms(2))
qed

theorem main_invalid_url_witness:
  "main examplePlatform
     \<lparr>pat = None, url = [str ''foo''], npmrc = str ''./.npmrc'', target = str ''~/.npmrc''\<rparr> []
     \<lparr>fs = [], trace = []\<rparr>
   = (\<lparr>fs = [], trace = [ConsoleLog (invalidUrlMessage (str ''foo''))]\<rparr>, Exit 1)"
proof -
  have "\<not> isFeedUrl (URL_new examplePlatform) (str ''foo'')" by code_simp
  from main_invalid_url[where P = examplePlatform and valid = "[]" and bad = "str ''foo''"
      and rest = "[]" and answers = "[]" and w = "\<lparr>fs = [], trace = []\<rparr>"
      and opts = "\<lparr>pat = None, url = [str ''foo''], npmrc = str ''./.npmrc'', target = str ''~/.npmrc''\<rparr>",
      OF _ _ _ this]
  show ?thesis by (simp add: emit_def examplePlatform_def)
qed

section \<open>The URL Matcher\<close>

lemma lits_no_slash:
  "slash \<notin> set (str ''_packaging'')" "slash \<notin> set (str ''npm'')" "slash \<notin> set (str ''registry'')"
  by (simp_all add: str_def slash_def)

lemma org_join:
  "js_join slash [[], org, str ''_packaging'', feed, str ''npm'', str ''registry'', []] =
   str ''/'' @ org @ str ''/_packaging/'' @ feed @ str ''/npm/registry/''"
  by (simp add: str_def slash_def)

lemma project_join:
  "js_join slash [[], org, project, str ''_packaging'', feed, str ''npm'', str ''registry'', []] =
   str ''/'' @ org @ str ''/'' @ project @ str ''/_packaging/'' @ feed @ str ''/npm/registry/''"
  by (simp add: str_def slash_def)

lemma orgPath_iff:
  "orgPath p \<longleftrightarrow>
     (\<exists>org feed. org \<noteq> [] \<and> slash \<notin> set org \<and> feed \<noteq> [] \<and> slash \<notin> set feed \<and>
        p = str ''/'' @ org @ str ''/_packaging/'' @ feed @ str ''/npm/registry/'')"
proof
  assume "orgPath p"
  then obtain a b where ab: "a \<noteq> []" "b \<noteq> []"
    "js_split slash p = [[], a, str ''_packaging'', b, str ''npm'', str ''registry'', []]"
    unfolding orgPath_def by blast
  have "a \<in> set (js_split slash p)" "b \<in> set (js_split slash p)" by (simp_all add: ab(3))
  then have "slash \<notin> set a" "slash \<notin> set b" by (simp_all add: js_split_no_sep)
  moreover have "p = str ''/'' @ a @ str ''/_packaging/'' @ b @ str ''/npm/registry/''"
    using js_join_split[of slash p] unfolding ab(3) org_join by simp
  ultimately show "\<exists>org feed. org \<noteq> [] \<and> slash \<notin> set org \<and> feed \<noteq> [] \<and> slash \<notin> set feed \<and>
        p = str ''/'' @ org @ str ''/_packaging/'' @ feed @ str ''/npm/registry/''"
    using ab(1,2) by blast
next
  assume "\<exists>org feed. org \<noteq> [] \<and> slash \<notin> set org \<and> feed \<noteq> [] \<and> slash \<notin> set feed \<and>
        p = str ''/'' @ org @ str ''/_packaging/'' @ feed @ str ''/npm/registry/''"
  then obtain a b where ab: "a \<noteq> []" "slash \<notin> set a" "b \<noteq> []" "slash \<notin> set b"
    "p = str ''/'' @ a @ str ''/_packaging/'' @ b @ str ''/npm/registry/''" by blast
  have "js_split slash (js_join slash [[], a, str ''_packaging'', b, str ''npm'', str ''registry'', []])
      = [[], a, str ''_packaging'', b, str ''npm'', str ''registry'', []]"
    using ab(2,4) lits_no_slash by (intro js_split_join) simp_all
  then show "orgPath p"
    unfolding orgPath_def org_join ab(5)[symmetric] using ab(1,3) by blast
qed

lemma projectPath_iff:
  "projectPath p \<longleftrightarrow>
     (\<exists>org project feed. org \<noteq> [] \<and> slash \<notin> set org \<and> project \<noteq> [] \<and> slash \<notin> set project \<and>
        feed \<noteq> [] \<and> slash \<notin> set feed \<and>
        p = str ''/'' @ org @ str ''/'' @ project @ str ''/_packaging/'' @ feed @ str ''/npm/registry/'')"
proof
  assume "projectPath p"
  then obtain a c b where ab: "a \<noteq> []" "c \<noteq> []" "b \<noteq> []"
    "js_split slash p = [[], a, c, str ''_packaging'', b, str ''npm'', str ''registry'', []]"
    unfolding projectPath_def by blast
  have "a \<in> set (js_split slash p)" "c \<in> set (js_split slash p)" "b \<in> set (js_split slash p)"
    by (simp_all add: ab(4))
  then have "slash \<notin> set a" "slash \<notin> set c" "slash \<notin> set b" by (simp_all add: js_split_no_sep)
  moreover have "p = str ''/'' @ a @ str ''/'' @ c @ str ''/_packaging/'' @ b @ str ''/npm/registry/''"
    using js_join_split[of slash p] unfolding ab(4) project_join by simp
  ultimately show "\<exists>org project feed. org \<noteq> [] \<and> slash \<notin> set org \<and> project \<noteq> [] \<and> slash \<notin> set project \<and>
        feed \<noteq> [] \<and> slash \<notin> set feed \<and>
        p = str ''/'' @ org @ str ''/'' @ project @ str ''/_packaging/'' @ feed @ str ''/npm/registry/''"
    using ab(1,2,3) by blast
next
  assume "\<exists>org project feed. org \<noteq> [] \<and> slash \<notin> set org \<and> project \<noteq> [] \<and> slash \<notin> set project \<and>
        feed \<noteq> [] \<and> slash \<notin> set feed \<and>
        p = str ''/'' @ org @ str ''/'' @ project @ str ''/_packaging/'' @ feed @ str ''/npm/registry/''"
  then obtain a c b where ab: "a \<noteq> []" "slash \<notin> set a" "c \<noteq> []" "slash \<notin> set c" "b \<noteq> []"
    "slash \<notin> set b"
    "p = str ''/'' @ a @ str ''/'' @ c @ str ''/_packaging/'' @ b @ str ''/npm/registry/''" by blast
  have "js_split slash (js_join slash [[], a, c, str ''_packaging'', b, str ''npm'', str ''registry'', []])
      = [[], a, c, str ''_packaging'', b, str ''npm'', str ''registry'', []]"
    using ab(2,4,6) lits_no_slash by (intro js_split_join) simp_all
  then show "projectPath p"
    unfolding projectPath_def project_join ab(7)[symmetric] using ab(1,3,5) by blast
qed

lemma not_None_iff: "x \<noteq> None \<longleftrightarrow> (\<exists>g. x = Some g)"
  by auto

lemma exec_gen:
  "(case x of None \<Rightarrow> None | Some u \<Rightarrow> if c u then m u else None) \<noteq> None \<longleftrightarrow>
     (\<exists>u. x = Some u \<and> c u \<and> m u \<noteq> None)"
  by (cases x) auto

lemma URLPattern_test_iff:
  "URLPattern_test newURL pattern input \<longleftrightarrow>
     (\<exists>u. newURL input = Some u \<and> protocol u = pattern_protocol pattern @ str '':'' \<and>
          hostname u = pattern_hostname pattern \<and> port u = pattern_port pattern \<and>
          matchSegments (pattern_pathname pattern) (js_split slash (pathname u)) \<noteq> None)"
  unfolding URLPattern_test_def URLPattern_exec_def exec_gen
  by (simp only: conj_assoc)

lemma org_segments_gen:
  "matchSegments [Literal e, Named n1, Literal l1, Named n2, Literal l2, Literal l3, Literal e'] xs
      \<noteq> None \<longleftrightarrow>
     (\<exists>a b. a \<noteq> [] \<and> b \<noteq> [] \<and> xs = [e, a, l1, b, l2, l3, e'])"
  unfolding not_None_iff org_match_gen by blast

lemma project_segments_gen:
  "matchSegments [Literal e, Named n1, Named n3, Literal l1, Named n2, Literal l2, Literal l3, Literal e'] xs
      \<noteq> None \<longleftrightarrow>
     (\<exists>a c b. a \<noteq> [] \<and> c \<noteq> [] \<and> b \<noteq> [] \<and> xs = [e, a, c, l1, b, l2, l3, e'])"
  unfolding not_None_iff project_match_gen by blast

lemma org_segments_iff:
  "matchSegments (pattern_pathname azureDevOpsOrganizationFeedPattern) (js_split slash p) \<noteq> None
   \<longleftrightarrow> orgPath p"
  unfolding azureDevOpsOrganizationFeedPattern_def URLPattern.simps orgPath_def
  by (rule org_segments_gen)

lemma project_segments_iff:
  "matchSegments (pattern_pathname azureDevOpsProjectFeedPattern) (js_split slash p) \<noteq> None
   \<longleftrightarrow> projectPath p"
  unfolding azureDevOpsProjectFeedPattern_def URLPattern.simps projectPath_def
  by (rule project_segments_gen)

lemma pattern_consts:
  "pattern_protocol azureDevOpsOrganizationFeedPattern @ str '':'' = str ''https:''"
  "pattern_hostname azureDevOpsOrganizationFeedPattern = str ''pkgs.dev.azure.com''"
  "pattern_port azureDevOpsOrganizationFeedPattern = []"
  "pattern_protocol azureDevOpsProjectFeedPattern @ str '':'' = str ''https:''"
  "pattern_hostname azureDevOpsProjectFeedPattern = str ''pkgs.dev.azure.com''"
  "pattern_port azureDevOpsProjectFeedPattern = []"
  by (simp_all add: azureDevOpsOrganizationFeedPattern_def azureDevOpsProjectFeedPattern_def str_def)

lemma org_test_iff:
  "URLPattern_test newURL azureDevOpsOrganizationFeedPattern s \<longleftrightarrow>
     (\<exists>u. newURL s = Some u \<and> protocol u = str ''https:'' \<and>
        hostname u = str ''pkgs.dev.azure.com'' \<and> port u = [] \<and> orgPath (pathname u))"
  unfolding URLPattern_test_iff org_segments_iff pattern_consts ..

lemma project_test_iff:
  "URLPattern_test newURL azureDevOpsProjectFeedPattern s \<longleftrightarrow>
     (\<exists>u. newURL s = Some u \<and> protocol u = str ''https:'' \<and>
        hostname u = str ''pkgs.dev.azure.com'' \<and> port u = [] \<and> projectPath (pathname u))"
  unfolding URLPattern_test_iff project_segments_iff pattern_consts ..

lemma org_not_project: "orgPath p \<Longrightarrow> \<not> projectPath p"
  by (auto simp: orgPath_def projectPath_def)

lemma org_exec:
  assumes "newURL s = Some u" "protocol u = str ''https:''" "hostname u = str ''pkgs.dev.azure.com''"
    "port u = []"
    "js_split slash (pathname u) = [[], a, str ''_packaging'', b, str ''npm'', str ''registry'', []]"
    "a \<noteq> []" "b \<noteq> []"
  shows "URLPattern_exec newURL azureDevOpsOrganizationFeedPattern s =
    Some [(''organization'', a), (''feed'', b)]"
  unfolding URLPattern_exec_Some org_match using assms pattern_consts(1-3) by simp

lemma project_exec:
  assumes "newURL s = Some u" "protocol u = str ''https:''" "hostname u = str ''pkgs.dev.azure.com''"
    "port u = []"
    "js_split slash (pathname u) = [[], a, c, str ''_packaging'', b, str ''npm'', str ''registry'', []]"
    "a \<noteq> []" "c \<noteq> []" "b \<noteq> []"
  shows "URLPattern_exec newURL azureDevOpsProjectFeedPattern s =
    Some [(''organization'', a), (''project'', c), (''feed'', b)]"
  unfolding URLPattern_exec_Some project_match using assms pattern_consts(4-6) by simp

lemma org_exec_None:
  assumes "newURL s = Some u" "projectPath (pathname u)"
  shows "URLPattern_exec newURL azureDevOpsOrganizationFeedPattern s = None"
proof -
  have "\<not> URLPattern_test newURL azureDevOpsOrganizationFeedPattern s"
    unfolding org_test_iff using assms org_not_project by auto
  then show ?thesis by (simp add: URLPattern_test_def)
qed

lemma org_split:
  assumes "slash \<notin> set a" "slash \<notin> set b"
  shows "js_split slash (str ''/'' @ a @ str ''/_packaging/'' @ b @ str ''/npm/registry/'') =
    [[], a, str ''_packaging'', b, str ''npm'', str ''registry'', []]"
proof -
  have "js_split slash (js_join slash [[], a, str ''_packaging'', b, str ''npm'', str ''registry'', []])
      = [[], a, str ''_packaging'', b, str ''npm'', str ''registry'', []]"
    using assms lits_no_slash by (intro js_split_join) simp_all
  then show ?thesis unfolding org_join .
qed

lemma project_split:
  assumes "slash \<notin> set a" "slash \<notin> set c" "slash \<notin> set b"
  shows "js_split slash
      (str ''/'' @ a @ str ''/'' @ c @ str ''/_packaging/'' @ b @ str ''/npm/registry/'') =
    [[], a, c, str ''_packaging'', b, str ''npm'', str ''registry'', []]"
proof -
  have "js_split slash
      (js_join slash [[], a, c, str ''_packaging'', b, str ''npm'', str ''registry'', []])
      = [[], a, c, str ''_packaging'', b, str ''npm'', str ''registry'', []]"
    using assms lits_no_slash by (intro js_split_join) simp_all
  then show ?thesis unfolding project_join .
qed

lemma organizationOf_simps:
  "organizationOf ((''organization'', a) # g) = a"
  by (simp add: organizationOf_def)

text \<open>
  C6, as the specification states it: a string would be accepted exactly when it is one of
  the two templates with a segment in the place of each wildcard. The patterns are matched
  against the parsed URL, not against the string: the organization-scoped URL written with
  the default port, or with its host in upper case, is accepted although the string does not
  conform to a template.
\<close>

theorem isFeedUrl_parsed_counterexample:
  "isFeedUrl exampleURL orgFeedUrlWithPort \<and> \<not> conformsToTemplate orgFeedUrlWithPort \<and>
   isFeedUrl exampleURL orgFeedUrlUpperCase \<and> \<not> conformsToTemplate orgFeedUrlUpperCase"
  by code_simp

text \<open>
  C6, amended. A string is accepted exactly when the URL constructor parses it to a URL with
  the protocol https, the host \<open>pkgs.dev.azure.com\<close>, the default port and a pathname of
  the form \<open>/org/_packaging/feed/npm/registry/\<close> or \<open>/org/project/_packaging/feed/npm/registry/\<close>
  with non-empty segments that hold no slash. The organization extracted at lines 86 to 94 is
  then the first segment of that pathname, for both forms; the project-scoped URL of the
  specification is accepted and yields \<open>myorg\<close>.
\<close>

theorem isFeedUrl_parsed:
  "(isFeedUrl newURL s \<longleftrightarrow>
      (\<exists>u. newURL s = Some u \<and> protocol u = str ''https:'' \<and>
         hostname u = str ''pkgs.dev.azure.com'' \<and> port u = [] \<and>
         ((\<exists>org feed. org \<noteq> [] \<and> slash \<notin> set org \<and> feed \<noteq> [] \<and> slash \<notin> set feed \<and>
             pathname u = str ''/'' @ org @ str ''/_packaging/'' @ feed @ str ''/npm/registry/'') \<or>
          (\<exists>org project feed. org \<noteq> [] \<and> slash \<notin> set org \<and> project \<noteq> [] \<and>
             slash \<notin> set project \<and> feed \<noteq> [] \<and> slash \<notin> set feed \<and>
             pathname u = str ''/'' @ org @ str ''/'' @ project @ str ''/_packaging/'' @ feed @
               str ''/npm/registry/''))))
   \<and>
   (\<forall>u org feed.
      newURL s = Some u \<and> protocol u = str ''https:'' \<and> hostname u = str ''pkgs.dev.azure.com'' \<and>
      port u = [] \<and> org \<noteq> [] \<and> slash \<notin> set org \<and> feed \<noteq> [] \<and> slash \<notin> set feed \<and>
      pathname u = str ''/'' @ org @ str ''/_packaging/'' @ feed @ str ''/npm/registry/''
      \<longrightarrow> map_option organizationOf (execFeedUrl newURL s) = Some org)
   \<and>
   (\<forall>u org project feed.
      newURL s = Some u \<and> protocol u = str ''https:'' \<and> hostname u = str ''pkgs.dev.azure.com'' \<and>
      port u = [] \<and> org \<noteq> [] \<and> slash \<notin> set org \<and> project \<noteq> [] \<and> slash \<notin> set project \<and>
      feed \<noteq> [] \<and> slash \<notin> set feed \<and>
      pathname u = str ''/'' @ org @ str ''/'' @ project @ str ''/_packaging/'' @ feed @
        str ''/npm/registry/''
      \<longrightarrow> map_option organizationOf (execFeedUrl newURL s) = Some org)"
proof (intro conjI allI impI)
  show "isFeedUrl newURL s \<longleftrightarrow>
      (\<exists>u. newURL s = Some u \<and> protocol u = str ''https:'' \<and>
         hostname u = str ''pkgs.dev.azure.com'' \<and> port u = [] \<and>
         ((\<exists>org feed. org \<noteq> [] \<and> slash \<notin> set org \<and> feed \<noteq> [] \<and> slash \<notin> set feed \<and>
             pathname u = str ''/'' @ org @ str ''/_packaging/'' @ feed @ str ''/npm/registry/'') \<or>
          (\<exists>org project feed. org \<noteq> [] \<and> slash \<notin> set org \<and> project \<noteq> [] \<and>
             slash \<notin> set project \<and> feed \<noteq> [] \<and> slash \<notin> set feed \<and>
             pathname u = str ''/'' @ org @ str ''/'' @ project @ str ''/_packaging/'' @ feed @
               str ''/npm/registry/'')))"
    unfolding isFeedUrl_def org_test_iff project_test_iff
      orgPath_iff[symmetric] projectPath_iff[symmetric]
    by blast
next
  fix u org feed
  assume a: "newURL s = Some u \<and> protocol u = str ''https:'' \<and> hostname u = str ''pkgs.dev.azure.com'' \<and>
      port u = [] \<and> org \<noteq> [] \<and> slash \<notin> set org \<and> feed \<noteq> [] \<and> slash \<notin> set feed \<and>
      pathname u = str ''/'' @ org @ str ''/_packaging/'' @ feed @ str ''/npm/registry/''"
  then have "js_split slash (pathname u) =
      [[], org, str ''_packaging'', feed, str ''npm'', str ''registry'', []]"
    by (simp add: org_split)
  with a have "URLPattern_exec newURL azureDevOpsOrganizationFeedPattern s =
      Some [(''organization'', org), (''feed'', feed)]"
    by (intro org_exec[of newURL s u]) simp_all
  then show "map_option organizationOf (execFeedUrl newURL s) = Some org"
    by (simp add: execFeedUrl_def organizationOf_simps)
next
  fix u org project feed
  assume a: "newURL s = Some u \<and> protocol u = str ''https:'' \<and> hostname u = str ''pkgs.dev.azure.com'' \<and>
      port u = [] \<and> org \<noteq> [] \<and> slash \<notin> set org \<and> project \<noteq> [] \<and> slash \<notin> set project \<and>
      feed \<noteq> [] \<and> slash \<notin> set feed \<and>
      pathname u = str ''/'' @ org @ str ''/'' @ project @ str ''/_packaging/'' @ feed @
        str ''/npm/registry/''"
  then have sp: "js_split slash (pathname u) =
      [[], org, project, str ''_packaging'', feed, str ''npm'', str ''registry'', []]"
    by (simp add: project_split)
  with a have "projectPath (pathname u)"
    unfolding projectPath_def by blast
  with a have n: "URLPattern_exec newURL azureDevOpsOrganizationFeedPattern s = None"
    by (intro org_exec_None[of newURL s u]) simp_all
  from a sp have "URLPattern_exec newURL azureDevOpsProjectFeedPattern s =
      Some [(''organization'', org), (''project'', project), (''feed'', feed)]"
    by (intro project_exec[of newURL s u]) simp_all
  with n show "map_option organizationOf (execFeedUrl newURL s) = Some org"
    by (simp add: execFeedUrl_def organizationOf_simps)
qed

theorem isFeedUrl_parsed_witness:
  "isFeedUrl exampleURL projectFeedUrl \<and>
   map_option organizationOf (execFeedUrl exampleURL projectFeedUrl) = Some (str ''myorg'') \<and>
   isFeedUrl exampleURL orgFeedUrl \<and>
   map_option organizationOf (execFeedUrl exampleURL orgFeedUrl) = Some (str ''myorg'')"
proof -
  let ?u = "\<lparr>protocol = str ''https:'', hostname = str ''pkgs.dev.azure.com'', port = [],
              pathname = str ''/myorg/myproj/_packaging/myfeed/npm/registry/''\<rparr>"
  let ?v = "\<lparr>protocol = str ''https:'', hostname = str ''pkgs.dev.azure.com'', port = [],
              pathname = str ''/myorg/_packaging/myfeed/npm/registry/''\<rparr>"
  have u: "exampleURL projectFeedUrl = Some ?u" by code_simp
  have v: "exampleURL orgFeedUrl = Some ?v" by code_simp
  have pu: "pathname ?u = str ''/'' @ str ''myorg'' @ str ''/'' @ str ''myproj'' @
      str ''/_packaging/'' @ str ''myfeed'' @ str ''/npm/registry/''"
    by (simp add: str_def)
  have pv: "pathname ?v = str ''/'' @ str ''myorg'' @ str ''/_packaging/'' @ str ''myfeed'' @
      str ''/npm/registry/''"
    by (simp add: str_def)
  have ne: "str ''myorg'' \<noteq> []" "slash \<notin> set (str ''myorg'')" "str ''myproj'' \<noteq> []"
    "slash \<notin> set (str ''myproj'')" "str ''myfeed'' \<noteq> []" "slash \<notin> set (str ''myfeed'')"
    by (simp_all add: str_def slash_def)
  note T = isFeedUrl_parsed[of exampleURL projectFeedUrl]
  note S = isFeedUrl_parsed[of exampleURL orgFeedUrl]
  have c: "protocol ?u = str ''https:''" "hostname ?u = str ''pkgs.dev.azure.com''" "port ?u = []"
    "protocol ?v = str ''https:''" "hostname ?v = str ''pkgs.dev.azure.com''" "port ?v = []"
    by simp_all
  have 1: "isFeedUrl exampleURL projectFeedUrl"
  proof (rule T[THEN conjunct1, THEN iffD2], rule exI[of _ ?u], intro conjI)
    show "exampleURL projectFeedUrl = Some ?u" by (rule u)
    show "protocol ?u = str ''https:''" "hostname ?u = str ''pkgs.dev.azure.com''" "port ?u = []"
      by (rule c)+
    show "(\<exists>org feed. org \<noteq> [] \<and> slash \<notin> set org \<and> feed \<noteq> [] \<and> slash \<notin> set feed \<and>
             pathname ?u = str ''/'' @ org @ str ''/_packaging/'' @ feed @ str ''/npm/registry/'') \<or>
          (\<exists>org project feed. org \<noteq> [] \<and> slash \<notin> set org \<and> project \<noteq> [] \<and>
             slash \<notin> set project \<and> feed \<noteq> [] \<and> slash \<notin> set feed \<and>
             pathname ?u = str ''/'' @ org @ str ''/'' @ project @ str ''/_packaging/'' @ feed @
               str ''/npm/registry/'')"
      by (rule disjI2, rule exI[of _ "str ''myorg''"], rule exI[of _ "str ''myproj''"],
          rule exI[of _ "str ''myfeed''"], intro conjI ne pu)
  qed
  have 2: "map_option organizationOf (execFeedUrl exampleURL projectFeedUrl) = Some (str ''myorg'')"
    by (rule T[THEN conjunct2, THEN conjunct2, rule_format,
          of ?u "str ''myorg''" "str ''myproj''" "str ''myfeed''"], intro conjI u c ne pu)
  have 3: "isFeedUrl exampleURL orgFeedUrl"
  proof (rule S[THEN conjunct1, THEN iffD2], rule exI[of _ ?v], intro conjI)
    show "exampleURL orgFeedUrl = Some ?v" by (rule v)
    show "protocol ?v = str ''https:''" "hostname ?v = str ''pkgs.dev.azure.com''" "port ?v = []"
      by (rule c)+
    show "(\<exists>org feed. org \<noteq> [] \<and> slash \<notin> set org \<and> feed \<noteq> [] \<and> slash \<notin> set feed \<and>
             pathname ?v = str ''/'' @ org @ str ''/_packaging/'' @ feed @ str ''/npm/registry/'') \<or>
          (\<exists>org project feed. org \<noteq> [] \<and> slash \<notin> set org \<and> project \<noteq> [] \<and>
             slash \<notin> set project \<and> feed \<noteq> [] \<and> slash \<notin> set feed \<and>
             pathname ?v = str ''/'' @ org @ str ''/'' @ project @ str ''/_packaging/'' @ feed @
               str ''/npm/registry/'')"
      by (rule disjI1, rule exI[of _ "str ''myorg''"], rule exI[of _ "str ''myfeed''"],
          intro conjI ne pv)
  qed
  have 4: "map_option organizationOf (execFeedUrl exampleURL orgFeedUrl) = Some (str ''myorg'')"
    by (rule S[THEN conjunct2, THEN conjunct1, rule_format,
          of ?v "str ''myorg''" "str ''myfeed''"], intro conjI u v c ne pv)
  from 1 2 3 4 show ?thesis by (intro conjI)
qed

section \<open>The project file when URLs are given\<close>

lemma discoverUrls_skipped:
  "feeds \<noteq> [] \<Longrightarrow> discoverUrls P file feeds w = (w, Inr (map JString feeds))"
  by (simp add: discoverUrls_def)

lemma main_npmrc_irrelevant:
  assumes "url opts \<noteq> []"
  shows "main P (opts\<lparr>npmrc := x\<rparr>) answers w = main P opts answers w"
  using assms by (simp add: main_def Let_def discoverUrls_skipped)

text \<open>
  C10. With at least one URL from the flag, lines 50 to 74 do nothing: whatever the path of
  the project file is, and whether the file exists or not, they test and read no file, end
  no run and leave the world as it is, the array \<open>url\<close> being the values of the flag. The
  whole run (its events, its result and the file system it leaves) is the same whatever
  \<open>--npmrc\<close> names, so the project file, present or absent, neither causes an error nor
  changes what the program prints and writes.
\<close>

theorem main_ignores_npmrc:
  assumes "url opts \<noteq> []"
  shows "(\<forall>f. discoverUrls P f (url opts) w = (w, Inr (map JString (url opts)))) \<and>
    (\<forall>x. main P (opts\<lparr>npmrc := x\<rparr>) answers w = main P opts answers w)"
proof (intro conjI allI)
  fix f show "discoverUrls P f (url opts) w = (w, Inr (map JString (url opts)))"
    using assms by (rule discoverUrls_skipped)
next
  fix x show "main P (opts\<lparr>npmrc := x\<rparr>) answers w = main P opts answers w"
    using assms by (rule main_npmrc_irrelevant)
qed

theorem main_ignores_npmrc_witness:
  "discoverUrls examplePlatform (str ''no-such-file'') [orgFeedUrl] \<lparr>fs = [], trace = []\<rparr>
     = (\<lparr>fs = [], trace = []\<rparr>, Inr [JString orgFeedUrl]) \<and>
   main examplePlatform
     \<lparr>pat = None, url = [orgFeedUrl], npmrc = str ''no-such-file'', target = str ''~/.npmrc''\<rparr> []
     \<lparr>fs = [], trace = []\<rparr>
   = main examplePlatform
     \<lparr>pat = None, url = [orgFeedUrl], npmrc = str ''./.npmrc'', target = str ''~/.npmrc''\<rparr> []
     \<lparr>fs = [], trace = []\<rparr>"
proof -
  let ?opts = "\<lparr>pat = None, url = [orgFeedUrl], npmrc = str ''./.npmrc'', target = str ''~/.npmrc''\<rparr>"
  let ?w = "\<lparr>fs = ([] :: (jsstring \<times> jsstring) list), trace = []\<rparr>"
  have u: "url ?opts \<noteq> []" by simp
  note T = main_ignores_npmrc[OF u, of examplePlatform ?w "[]"]
  from T[THEN conjunct1, rule_format, of "str ''no-such-file''"]
  have 1: "discoverUrls examplePlatform (str ''no-such-file'') [orgFeedUrl] ?w
      = (?w, Inr [JString orgFeedUrl])"
    by simp
  from T[THEN conjunct2, rule_format, of "str ''no-such-file''"]
  have 2: "main examplePlatform
     \<lparr>pat = None, url = [orgFeedUrl], npmrc = str ''no-such-file'', target = str ''~/.npmrc''\<rparr> [] ?w
     = main examplePlatform ?opts [] ?w"
    by simp
  from 1 2 show ?thesis by (intro conjI)
qed

end
